theory Spec2Isabelle
  imports Main "HOL-Library.Char_ord"
begin

section \<open>Strings\<close>

text \<open>
  A JavaScript string is modelled as a \<^typ>\<open>string\<close>: a list of characters, each
  standing for one code unit below 256. The backend and the editor only inspect
  asterisks, ASCII letters, white space, line terminators, commas, parentheses and
  backslashes, all of which are in that range.
\<close>

abbreviation backslash :: char where
  "backslash \<equiv> CHR 0x5C"

text \<open>White space as \<open>String.prototype.trim\<close> sees it (below code unit 256):
  TAB, LF, VT, FF, CR, SPACE and NBSP.\<close>

definition isSpace :: "char \<Rightarrow> bool" where
  "isSpace c = (c \<in> set [CHR 0x09, CHR 0x0A, CHR 0x0B, CHR 0x0C, CHR 0x0D, CHR 0x20, CHR 0xA0])"

text \<open>The regular-expression class \<open>[a-zA-Z]\<close>.\<close>

definition isLetter :: "char \<Rightarrow> bool" where
  "isLetter c = ((CHR ''a'' \<le> c \<and> c \<le> CHR ''z'') \<or> (CHR ''A'' \<le> c \<and> c \<le> CHR ''Z''))"

text \<open>The characters the regular-expression dot refuses without the \<open>s\<close> flag.\<close>

definition isLineTerminator :: "char \<Rightarrow> bool" where
  "isLineTerminator c = (c = CHR 0x0A \<or> c = CHR 0x0D)"

definition trim :: "string \<Rightarrow> string" where
  "trim s = rev (dropWhile isSpace (rev (dropWhile isSpace s)))"

text \<open>\<open>s.slice(a, b)\<close> for \<open>0 \<le> a\<close> and \<open>0 \<le> b\<close>.\<close>

definition slice :: "string \<Rightarrow> nat \<Rightarrow> nat \<Rightarrow> string" where
  "slice s a b = take (b - a) (drop a s)"

section \<open>Segments\<close>

text \<open>
  The objects \<open>{ type, content }\<close> of the backend and of the editor. The tag
  ranges over the four strings the code uses: \<open>'math'\<close> and \<open>'text'\<close> for extracted
  segments, \<open>'latex'\<close>, \<open>'text'\<close> and \<open>'placeholder'\<close> for rendered ones.
\<close>

datatype segment_type = Math | Text | Latex | Placeholder

record segment =
  type :: segment_type
  content :: string

section \<open>The segment extractor (\<open>extractSegments\<close> in \<open>server.js\<close>)\<close>

text \<open>
  \<open>indexOfStar s i\<close> is the position of the first asterisk at or after \<open>i\<close>.
\<close>

definition indexOfStar :: "string \<Rightarrow> nat \<Rightarrow> nat option" where
  "indexOfStar s i =
     (if CHR ''*'' \<in> set (drop i s)
      then Some (i + length (takeWhile (\<lambda>c. c \<noteq> CHR ''*'') (drop i s)))
      else None)"

text \<open>
  One call \<open>regex.exec(input)\<close> of the global expression \<open>/\*(.*?)\*/gs\<close>,
  which searches from \<open>lastIndex\<close> on: the match begins at the first asterisk that
  has a later asterisk, and the lazy group (under the flag \<open>s\<close> the dot takes every
  character) stops at the very next asterisk. The result is \<open>match.index\<close>, \<open>match[1]\<close> and the new
  \<open>regex.lastIndex\<close>; \<open>None\<close> is \<open>null\<close>.
\<close>

definition regex_exec :: "string \<Rightarrow> nat \<Rightarrow> (nat \<times> string \<times> nat) option" where
  "regex_exec input lastIndex =
     (case indexOfStar input lastIndex of
        None \<Rightarrow> None
      | Some i \<Rightarrow>
         (case indexOfStar input (i + 1) of
            None \<Rightarrow> None
          | Some j \<Rightarrow> Some (i, slice input (i + 1) j, j + 1)))"

lemma length_takeWhile_mem:
  "x \<in> set xs \<Longrightarrow> \<not> P x \<Longrightarrow> length (takeWhile P xs) < length xs"
  by (induction xs) auto

lemma indexOfStar_bounds:
  assumes "indexOfStar s i = Some p"
  shows "i \<le> p" and "p < length s" and "s ! p = CHR ''*''"
    and "\<forall>k. i \<le> k \<and> k < p \<longrightarrow> s ! k \<noteq> CHR ''*''"
proof -
  let ?r = "drop i s"
  let ?t = "takeWhile (\<lambda>c. c \<noteq> CHR ''*'') ?r"
  from assms have mem: "CHR ''*'' \<in> set ?r" and p: "p = i + length ?t"
    by (auto simp: indexOfStar_def split: if_splits)
  show "i \<le> p" using p by simp
  have lt: "length ?t < length ?r"
    using mem by (rule length_takeWhile_mem) simp
  then show "p < length s" using p by simp
  have "?r ! length ?t = CHR ''*''"
    using nth_length_takeWhile [OF lt] by simp
  then show "s ! p = CHR ''*''" using p lt by simp
  show "\<forall>k. i \<le> k \<and> k < p \<longrightarrow> s ! k \<noteq> CHR ''*''"
  proof (intro allI impI)
    fix k assume k: "i \<le> k \<and> k < p"
    then have kk: "k - i < length ?t" using p by arith
    have "?t ! (k - i) \<in> set ?t" using kk by simp
    then have "?t ! (k - i) \<noteq> CHR ''*''" by (auto dest: set_takeWhileD)
    moreover have "?t ! (k - i) = ?r ! (k - i)" using kk by (rule takeWhile_nth)
    moreover have "?r ! (k - i) = s ! k"
    proof -
      have "i + (k - i) = k" using k by arith
      moreover have "i \<le> length s" using k \<open>p < length s\<close> by arith
      ultimately show ?thesis by simp
    qed
    ultimately show "s ! k \<noteq> CHR ''*''" by simp
  qed
qed

lemma regex_exec_bounds:
  assumes "regex_exec input lastIndex = Some (i, inside, lastIndex')"
  shows "lastIndex \<le> i" and "i + 1 < lastIndex'" and "lastIndex' \<le> length input"
  using assms
  by (auto simp: regex_exec_def split: option.splits dest: indexOfStar_bounds(1,2))

text \<open>
  The \<open>while\<close> loop of the extractor: the state is the local \<open>lastIndex\<close> and the
  array \<open>segments\<close>; the result is that state when \<open>exec\<close> returns \<open>null\<close>.
\<close>

function extract_loop :: "string \<Rightarrow> nat \<Rightarrow> segment list \<Rightarrow> nat \<times> segment list" where
  "extract_loop input lastIndex segments =
     (case regex_exec input lastIndex of
        None \<Rightarrow> (lastIndex, segments)
      | Some (index, inside, lastIndex') \<Rightarrow>
          (let segments1 =
                 (if index > lastIndex
                  then (let outside = slice input lastIndex index
                        in if trim outside \<noteq> []
                           then segments @ [\<lparr>type = Text, content = trim outside\<rparr>]
                           else segments)
                  else segments);
               segments2 =
                 (if trim inside \<noteq> []
                  then segments1 @ [\<lparr>type = Math, content = trim inside\<rparr>]
                  else segments1)
           in extract_loop input lastIndex' segments2))"
  by pat_completeness auto
termination
proof (relation "measure (\<lambda>(input, lastIndex, segments). length input - lastIndex)")
  show "wf (measure (\<lambda>(input, lastIndex, segments). length input - lastIndex))"
    by simp
next
  fix input :: string and lastIndex index lastIndex' :: nat
    and segments segments1 segments2 :: "segment list"
    and m :: "nat \<times> string \<times> nat" and inside_next :: "string \<times> nat" and inside :: string
  assume "regex_exec input lastIndex = Some m" "(index, inside_next) = m"
    "(inside, lastIndex') = inside_next"
  then have "regex_exec input lastIndex = Some (index, inside, lastIndex')"
    by simp
  from regex_exec_bounds [OF this]
  show "((input, lastIndex', segments2), (input, lastIndex, segments))
          \<in> measure (\<lambda>(input, lastIndex, segments). length input - lastIndex)"
    by simp
qed

declare extract_loop.simps [simp del]

definition extractSegments :: "string \<Rightarrow> segment list" where
  "extractSegments input =
     (let (lastIndex, segments) = extract_loop input 0 [];
          segments1 =
            (if lastIndex < length input
             then (let tail = drop lastIndex input
                   in if trim tail \<noteq> []
                      then segments @ [\<lparr>type = Text, content = trim tail\<rparr>]
                      else segments)
             else segments)
      in if segments1 = [] \<and> trim input \<noteq> []
         then segments1 @ [\<lparr>type = Text, content = trim input\<rparr>]
         else segments1)"

section \<open>The fallback converter (\<open>basicInlineConverter\<close>)\<close>

text \<open>
  \<open>String.prototype.replace\<close> with a global regular expression, for expressions
  whose matches are never empty. The matcher is asked at every position, from left to
  right; it is told whether the position is index 0 (for the anchor \<open>^\<close>) and
  answers with the replacement text and the number of characters matched. After a match
  of \<open>n\<close> characters the scan resumes behind it: the counter skips the remaining
  \<open>n - 1\<close> characters. A position without a match copies its character.
\<close>

type_synonym matcher = "bool \<Rightarrow> string \<Rightarrow> (string \<times> nat) option"

fun replaceAll :: "matcher \<Rightarrow> bool \<Rightarrow> nat \<Rightarrow> string \<Rightarrow> string" where
  "replaceAll m atStart skip [] = []"
| "replaceAll m atStart (Suc k) (c # cs) = replaceAll m False k cs"
| "replaceAll m atStart 0 (c # cs) =
     (case m atStart (c # cs) of
        None \<Rightarrow> c # replaceAll m False 0 cs
      | Some (replacement, n) \<Rightarrow> replacement @ replaceAll m False (n - 1) cs)"

definition replace :: "matcher \<Rightarrow> string \<Rightarrow> string" where
  "replace m s = replaceAll m True 0 s"

text \<open>Case folding under the \<open>i\<close> flag: only the ASCII letters fold onto each other.\<close>

definition toLower :: "char \<Rightarrow> char" where
  "toLower c = (if CHR ''A'' \<le> c \<and> c \<le> CHR ''Z'' then char_of (of_char c + (32::nat)) else c)"

text \<open>A literal of the pattern at the head of \<open>s\<close>, ignoring case; the result is
  what follows it.\<close>

definition literalCI :: "string \<Rightarrow> string \<Rightarrow> string option" where
  "literalCI lit s =
     (if length lit \<le> length s \<and> map toLower (take (length lit) s) = map toLower lit
      then Some (drop (length lit) s)
      else None)"

text \<open>
  A lazy group \<open>(.*?)\<close> followed by the literal character \<open>stop\<close>: the group is
  the shortest run of characters other than line terminators that is followed by
  \<open>stop\<close>. The result is the group and what follows \<open>stop\<close>. Where several such
  groups follow each other, a later group failing cannot be repaired by lengthening an
  earlier one (the later stops would only have less text to be found in), so the
  backtracking matcher takes each group up to the very next stop character.
\<close>

fun lazyGroup :: "char \<Rightarrow> string \<Rightarrow> (string \<times> string) option" where
  "lazyGroup stop [] = None"
| "lazyGroup stop (c # cs) =
     (if c = stop then Some ([], cs)
      else if isLineTerminator c then None
      else (case lazyGroup stop cs of
              None \<Rightarrow> None
            | Some (g, rest) \<Rightarrow> Some (c # g, rest)))"

text \<open>\<open>/squareroot\((.*?)\)/gi\<close> with the replacement \<open>'\\\\sqrt{$1}'\<close>: the
  JavaScript literal denotes two backslashes, and a backslash is an ordinary character
  of a replacement string.\<close>

definition match_squareroot :: matcher where
  "match_squareroot atStart s =
     (case literalCI ''squareroot('' s of
        None \<Rightarrow> None
      | Some s1 \<Rightarrow>
         (case lazyGroup (CHR '')'') s1 of
            None \<Rightarrow> None
          | Some (g1, rest) \<Rightarrow>
              Some ([backslash, backslash] @ ''sqrt{'' @ g1 @ ''}'',
                    length s - length rest)))"

text \<open>\<open>/integral\((.*?),(.*?),(.*?),(.*?)\)/gi\<close> with the replacement
  \<open>'\\\\int_{ $1 }^{ $2 } $3 \\\\mathrm{d}$4'\<close>.\<close>

definition match_integral :: matcher where
  "match_integral atStart s =
     (case literalCI ''integral('' s of
        None \<Rightarrow> None
      | Some s1 \<Rightarrow>
         (case lazyGroup (CHR '','') s1 of
            None \<Rightarrow> None
          | Some (g1, s2) \<Rightarrow>
             (case lazyGroup (CHR '','') s2 of
                None \<Rightarrow> None
              | Some (g2, s3) \<Rightarrow>
                 (case lazyGroup (CHR '','') s3 of
                    None \<Rightarrow> None
                  | Some (g3, s4) \<Rightarrow>
                     (case lazyGroup (CHR '')'') s4 of
                        None \<Rightarrow> None
                      | Some (g4, rest) \<Rightarrow>
                          Some ([backslash, backslash] @ ''int_{ '' @ g1 @ '' }^{ '' @ g2
                                  @ '' } '' @ g3 @ '' '' @ [backslash, backslash]
                                  @ ''mathrm{d}'' @ g4,
                                length s - length rest))))))"

text \<open>\<open>/fraction\((.*?),(.*?)\)/gi\<close> with the replacement \<open>'\\\\frac{$1}{$2}'\<close>.\<close>

definition match_fraction :: matcher where
  "match_fraction atStart s =
     (case literalCI ''fraction('' s of
        None \<Rightarrow> None
      | Some s1 \<Rightarrow>
         (case lazyGroup (CHR '','') s1 of
            None \<Rightarrow> None
          | Some (g1, s2) \<Rightarrow>
             (case lazyGroup (CHR '')'') s2 of
                None \<Rightarrow> None
              | Some (g2, rest) \<Rightarrow>
                  Some ([backslash, backslash] @ ''frac{'' @ g1 @ ''}{'' @ g2 @ ''}'',
                        length s - length rest))))"

definition basicInlineConverter :: "string \<Rightarrow> string" where
  "basicInlineConverter input =
     trim (replace match_fraction (replace match_integral (replace match_squareroot input)))"

section \<open>The normalization pass (\<open>normalizeLatex\<close>)\<close>

text \<open>The lookahead \<open>(?=[^a-zA-Z]|$)\<close>.\<close>

definition lookahead :: "string \<Rightarrow> bool" where
  "lookahead s = (case s of [] \<Rightarrow> True | c # _ \<Rightarrow> \<not> isLetter c)"

text \<open>The command name followed by the lookahead, at the head of \<open>s\<close>.\<close>

definition commandHere :: "string \<Rightarrow> string \<Rightarrow> bool" where
  "commandHere command s =
     (take (length command) s = command \<and> lookahead (drop (length command) s))"

text \<open>
  The expression \<open>(^|[^\\])(command)(?=[^a-zA-Z]|$)\<close> with the replacement
  function \<open>`${prefix}\\${cmd}`\<close> (one backslash): at index 0 the empty prefix is
  tried first; otherwise the prefix is one character that is not a backslash.
\<close>

definition match_command :: "string \<Rightarrow> matcher" where
  "match_command command atStart s =
     (if atStart \<and> commandHere command s
      then Some (backslash # command, length command)
      else (case s of
              [] \<Rightarrow> None
            | p # s1 \<Rightarrow>
                if p \<noteq> backslash \<and> commandHere command s1
                then Some (p # backslash # command, 1 + length command)
                else None))"

definition commands :: "string list" where
  "commands = [''int'', ''sum'', ''sqrt'', ''sin'', ''cos'', ''tan'', ''log'', ''nabla'',
               ''vec'', ''cdot'', ''times'', ''boxed'']"

definition normalizeLatex :: "string \<Rightarrow> string" where
  "normalizeLatex latex =
     (if latex = [] then []
      else fold (\<lambda>command normalized. replace (match_command command) normalized)
             commands latex)"

section \<open>The conversion (\<open>convertMathToLatex\<close>)\<close>

text \<open>Values of JSON, as \<open>express.json\<close> and \<open>JSON.parse\<close> deliver them. Of a
  number only its being zero is ever observed.\<close>

datatype json =
    JNull
  | JBool bool
  | JNumber int
  | JString string
  | JArray "json list"
  | JObject "(string \<times> json) list"

text \<open>What the promise of a conversion is rejected with.\<close>

datatype failure = RequestFailed | EmptyResponse

text \<open>
  The external service is a parameter: \<open>service instructions\<close> stands for the call
  \<open>axios.post\<close> followed by \<open>extractArrayFromResponse\<close>. It is \<open>None\<close> when the
  call throws and \<open>Some parsed\<close> for the array taken out of the reply (empty when
  nothing could be taken out).
\<close>

type_synonym service = "string list \<Rightarrow> json list option"

text \<open>The callback \<open>(item) => (typeof item === 'string' ? item.trim() : '')\<close>.\<close>

definition latexOfItem :: "json \<Rightarrow> string" where
  "latexOfItem item = (case item of JString s \<Rightarrow> trim s | _ \<Rightarrow> [])"

definition convertWithOpenAI :: "service \<Rightarrow> string list \<Rightarrow> failure + string list" where
  "convertWithOpenAI service mathInstructions =
     (if mathInstructions = [] then Inr []
      else (case service mathInstructions of
              None \<Rightarrow> Inl RequestFailed
            | Some parsed \<Rightarrow>
                if parsed \<noteq> []
                then Inr (map latexOfItem parsed)
                else Inl EmptyResponse))"

text \<open>\<open>latexList[index]\<close>: \<open>None\<close> is \<open>undefined\<close>.\<close>

definition at :: "'a list \<Rightarrow> nat \<Rightarrow> 'a option" where
  "at xs i = (if i < length xs then Some (xs ! i) else None)"

text \<open>The repair of a list that is too short:
  \<open>mathSegments.map((segment, index) => latexList[index] ?? basicInlineConverter(segment.content))\<close>.\<close>

definition backfill :: "segment list \<Rightarrow> string list \<Rightarrow> string list" where
  "backfill mathSegments latexList =
     map (\<lambda>(segment, index).
            case at latexList index of
              Some l \<Rightarrow> l
            | None \<Rightarrow> basicInlineConverter (content segment))
         (zip mathSegments [0 ..< length mathSegments])"

text \<open>\<open>.filter(Boolean)\<close> on an array of objects and \<open>null\<close>s.\<close>

primrec filterBoolean :: "'a option list \<Rightarrow> 'a list" where
  "filterBoolean [] = []"
| "filterBoolean (x # xs) = (case x of None \<Rightarrow> filterBoolean xs | Some y \<Rightarrow> y # filterBoolean xs)"

text \<open>
  The \<open>map\<close> that builds \<open>orderedSegments\<close>, with the counter \<open>latexIndex\<close> it
  shares between its calls; \<open>latexList[latexIndex++] || ''\<close> reads an empty string
  where the list has no element.
\<close>

fun orderSegments :: "string list \<Rightarrow> nat \<Rightarrow> segment list \<Rightarrow> segment option list" where
  "orderSegments latexList latexIndex [] = []"
| "orderSegments latexList latexIndex (segment # rest) =
     (if content segment = [] then None # orderSegments latexList latexIndex rest
      else if type segment = Math then
        (let converted =
               normalizeLatex (case at latexList latexIndex of Some l \<Rightarrow> l | None \<Rightarrow> [])
         in (if converted = [] then None else Some \<lparr>type = Latex, content = converted\<rparr>)
            # orderSegments latexList (latexIndex + 1) rest)
      else Some \<lparr>type = Text, content = content segment\<rparr>
           # orderSegments latexList latexIndex rest)"

definition convertMathToLatex :: "bool \<Rightarrow> service \<Rightarrow> string \<Rightarrow> failure + segment list" where
  "convertMathToLatex hasOpenAIKey service input =
     (let segments = extractSegments input;
          mathSegments = filter (\<lambda>segment. type segment = Math) segments
      in if mathSegments = []
         then Inr (filterBoolean
                (map (\<lambda>segment.
                        if content segment \<noteq> []
                        then Some \<lparr>type = Text, content = content segment\<rparr>
                        else None)
                   segments))
         else
           (case (if hasOpenAIKey
                  then convertWithOpenAI service (map content mathSegments)
                  else Inr (map (\<lambda>segment. basicInlineConverter (content segment))
                              mathSegments)) of
              Inl e \<Rightarrow> Inl e
            | Inr latexList \<Rightarrow>
                (let latexList1 =
                       (if length latexList < length mathSegments
                        then backfill mathSegments latexList
                        else latexList)
                 in Inr (filterBoolean (orderSegments latexList1 0 segments)))))"

section \<open>The route \<open>POST /convert\<close>\<close>

text \<open>The operator \<open>!\<close> on a value of JSON.\<close>

fun falsy :: "json \<Rightarrow> bool" where
  "falsy JNull = True"
| "falsy (JBool b) = (\<not> b)"
| "falsy (JNumber n) = (n = 0)"
| "falsy (JString s) = (s = [])"
| "falsy (JArray xs) = False"
| "falsy (JObject props) = False"

text \<open>Reading a named property; of the values of JSON only an object can hold one
  called \<open>input\<close>, and a key written twice keeps its last value.\<close>

fun getProperty :: "json \<Rightarrow> string \<Rightarrow> json option" where
  "getProperty (JObject props) key = map_of (rev props) key"
| "getProperty other key = None"

text \<open>\<open>const { input } = req.body || {}\<close>; a missing body is \<open>None\<close>.\<close>

definition requestInput :: "json option \<Rightarrow> json option" where
  "requestInput body =
     (case body of
        None \<Rightarrow> None
      | Some b \<Rightarrow> if falsy b then None else getProperty b ''input'')"

datatype payload = ErrorJson string | SegmentsJson "segment list"

text \<open>A response: \<open>res.status(httpStatus).json(json)\<close>; \<open>res.json\<close> alone answers 200.\<close>

record response =
  httpStatus :: nat
  json :: payload

definition invalidInputMessage :: string where
  "invalidInputMessage =
     ''Request body must include an \"input\" string with the math expression.''"

definition conversionFailedMessage :: string where
  "conversionFailedMessage =
     ''Failed to convert input to LaTeX. Check server logs for details.''"

text \<open>
  The handler: \<open>!input || typeof input !== 'string'\<close> answers 400 for a missing
  input, for an input of another type and for a falsy string; \<open>res.json\<close> answers
  200; a rejected conversion answers 500.
\<close>

definition convert_route :: "bool \<Rightarrow> service \<Rightarrow> json option \<Rightarrow> response" where
  "convert_route hasOpenAIKey service reqBody =
     (case requestInput reqBody of
        None \<Rightarrow> \<lparr>httpStatus = 400, json = ErrorJson invalidInputMessage\<rparr>
      | Some input \<Rightarrow>
         (case input of
            JString s \<Rightarrow>
              if falsy input then \<lparr>httpStatus = 400, json = ErrorJson invalidInputMessage\<rparr>
              else (case convertMathToLatex hasOpenAIKey service s of
                      Inr result \<Rightarrow> \<lparr>httpStatus = 200, json = SegmentsJson result\<rparr>
                    | Inl error \<Rightarrow> \<lparr>httpStatus = 500, json = ErrorJson conversionFailedMessage\<rparr>)
          | _ \<Rightarrow> \<lparr>httpStatus = 400, json = ErrorJson invalidInputMessage\<rparr>))"

section \<open>Properties of the extractor\<close>

lemma few_stars_no_match:
  assumes "length (filter (\<lambda>c. c = CHR ''*'') input) < 2"
  shows "regex_exec input lastIndex = None"
proof (rule ccontr)
  assume "regex_exec input lastIndex \<noteq> None"
  then obtain i j where i: "indexOfStar input lastIndex = Some i"
    and j: "indexOfStar input (i + 1) = Some j"
    by (auto simp: regex_exec_def split: option.splits)
  have ii: "i < length input" "input ! i = CHR ''*''"
    using indexOfStar_bounds [OF i] by auto
  have mem: "CHR ''*'' \<in> set (drop (i + 1) input)"
    using j by (auto simp: indexOfStar_def split: if_splits)
  have split: "input = take i input @ input ! i # drop (i + 1) input"
    using ii(1) by (simp add: id_take_nth_drop)
  have "filter (\<lambda>c. c = CHR ''*'') (drop (i + 1) input) \<noteq> []"
    using mem by (auto simp: filter_empty_conv)
  then have "1 \<le> length (filter (\<lambda>c. c = CHR ''*'') (drop (i + 1) input))"
    by (simp add: Suc_leI)
  moreover have "length (filter (\<lambda>c. c = CHR ''*'') input) =
      length (filter (\<lambda>c. c = CHR ''*'') (take i input)) + 1 +
      length (filter (\<lambda>c. c = CHR ''*'') (drop (i + 1) input))"
    by (subst split) (simp add: ii(2))
  ultimately show False using assms by arith
qed

text \<open>
  Claim C5. A document with fewer than two asterisks has no complete pair of
  delimiters; the extractor then yields no segment when the trimmed document is empty,
  and otherwise exactly one segment, of type text, whose content is the trimmed
  document.
\<close>

theorem extractSegments_without_pair:
  assumes "length (filter (\<lambda>c. c = CHR ''*'') input) < 2"
  shows "extractSegments input =
      (if trim input = [] then [] else [\<lparr>type = Text, content = trim input\<rparr>])"
proof -
  have loop: "extract_loop input 0 [] = (0, [])"
    by (subst extract_loop.simps) (simp add: few_stars_no_match [OF assms])
  have blank: "input = [] \<Longrightarrow> trim input = []"
    by (simp add: trim_def)
  show ?thesis
    using blank by (auto simp: extractSegments_def loop Let_def)
qed

theorem extractSegments_without_pair_witness:
  "length (filter (\<lambda>c. c = CHR ''*'') '' 2 * x '') < 2
   \<and> extractSegments '' 2 * x '' = [\<lparr>type = Text, content = ''2 * x''\<rparr>]"
  using extractSegments_without_pair [of "'' 2 * x ''"]
  by (simp add: trim_def isSpace_def)

section \<open>Properties of the route\<close>

text \<open>
  Claim C8. A request whose body has no \<open>input\<close>, or whose \<open>input\<close> is not a
  string, is answered with status 400 and the error message, whatever the configuration
  and the external service are: the answer is fixed before the extractor or a converter
  is consulted. A request whose \<open>input\<close> is a non-empty string does not take that
  branch: its answer is 200 with the converted segments, or 500 when the conversion is
  rejected.
\<close>

theorem convert_route_invalid_input:
  assumes "requestInput bad = None \<or> (\<exists>v. requestInput bad = Some v \<and> (\<forall>s. v \<noteq> JString s))"
    and "requestInput good = Some (JString s)" and "s \<noteq> []"
  shows "convert_route hasOpenAIKey service bad = \<lparr>httpStatus = 400, json = ErrorJson invalidInputMessage\<rparr>
    \<and> httpStatus (convert_route hasOpenAIKey service good) \<noteq> 400
    \<and> convert_route hasOpenAIKey service good =
        (case convertMathToLatex hasOpenAIKey service s of
           Inr result \<Rightarrow> \<lparr>httpStatus = 200, json = SegmentsJson result\<rparr>
         | Inl error \<Rightarrow> \<lparr>httpStatus = 500, json = ErrorJson conversionFailedMessage\<rparr>)"
proof (intro conjI)
  show "convert_route hasOpenAIKey service bad = \<lparr>httpStatus = 400, json = ErrorJson invalidInputMessage\<rparr>"
    using assms(1) by (auto simp: convert_route_def split: option.splits json.splits)
  show "convert_route hasOpenAIKey service good =
        (case convertMathToLatex hasOpenAIKey service s of
           Inr result \<Rightarrow> \<lparr>httpStatus = 200, json = SegmentsJson result\<rparr>
         | Inl error \<Rightarrow> \<lparr>httpStatus = 500, json = ErrorJson conversionFailedMessage\<rparr>)"
    using assms(2,3) by (simp add: convert_route_def)
  then show "httpStatus (convert_route hasOpenAIKey service good) \<noteq> 400"
    by (simp split: sum.splits)
qed

theorem convert_route_invalid_input_witness:
  "convert_route False (\<lambda>instructions. None) (Some (JObject [(''input'', JNumber 5)]))
     = \<lparr>httpStatus = 400, json = ErrorJson invalidInputMessage\<rparr>
   \<and> httpStatus (convert_route False (\<lambda>instructions. None)
        (Some (JObject [(''input'', JString ''x'')]))) \<noteq> 400"
proof -
  have bad: "requestInput (Some (JObject [(''input'', JNumber 5)])) = None
      \<or> (\<exists>v. requestInput (Some (JObject [(''input'', JNumber 5)])) = Some v
            \<and> (\<forall>s. v \<noteq> JString s))"
    by (simp add: requestInput_def)
  have good: "requestInput (Some (JObject [(''input'', JString ''x'')])) = Some (JString ''x'')"
    by (simp add: requestInput_def)
  have ne: "''x'' \<noteq> []" by simp
  from convert_route_invalid_input [OF bad good ne, of False "\<lambda>instructions. None"]
  show ?thesis by blast
qed

text \<open>
  Claim C10. The empty string as \<open>input\<close> is answered exactly as a missing
  \<open>input\<close> is: status 400 with the same error message.
\<close>

theorem convert_route_empty_string:
  assumes "requestInput reqBody = Some (JString [])"
  shows "convert_route hasOpenAIKey service reqBody
           = \<lparr>httpStatus = 400, json = ErrorJson invalidInputMessage\<rparr>
    \<and> convert_route hasOpenAIKey service reqBody
           = convert_route hasOpenAIKey service (Some (JObject []))"
  using assms by (simp add: convert_route_def requestInput_def)

theorem convert_route_empty_string_witness:
  "convert_route True (\<lambda>instructions. None) (Some (JObject [(''input'', JString [])]))
     = \<lparr>httpStatus = 400, json = ErrorJson invalidInputMessage\<rparr>
   \<and> convert_route True (\<lambda>instructions. None) (Some (JObject [(''input'', JString [])]))
     = convert_route True (\<lambda>instructions. None) (Some (JObject []))"
proof -
  have "requestInput (Some (JObject [(''input'', JString [])])) = Some (JString [])"
    by (simp add: requestInput_def)
  from convert_route_empty_string [OF this, of True "\<lambda>instructions. None"]
  show ?thesis .
qed

section \<open>The scenario of the square root\<close>

text \<open>
  Claim C3. Without an external service the document \<open>*squareroot(2x)* is steep\<close>
  is converted into two segments, a formula and the text \<open>is steep\<close>. The formula
  the code delivers starts with two backslashes, not with the single backslash of
  \<open>\sqrt{2x}\<close>: the replacement text of the fallback converter contains two, and
  the normalization pass leaves a command name behind a backslash alone.
\<close>

theorem convert_squareroot_scenario:
  "convertMathToLatex False service ''*squareroot(2x)* is steep''
     = Inr [\<lparr>type = Latex, content = [backslash, backslash] @ ''sqrt{2x}''\<rparr>,
            \<lparr>type = Text, content = ''is steep''\<rparr>]
   \<and> convertMathToLatex False service ''*squareroot(2x)* is steep''
     \<noteq> Inr [\<lparr>type = Latex, content = [backslash] @ ''sqrt{2x}''\<rparr>,
            \<lparr>type = Text, content = ''is steep''\<rparr>]"
proof -
  have "convertMathToLatex False service ''*squareroot(2x)* is steep''
     = Inr [\<lparr>type = Latex, content = [backslash, backslash] @ ''sqrt{2x}''\<rparr>,
            \<lparr>type = Text, content = ''is steep''\<rparr>]"
    by code_simp
  then show ?thesis by simp
qed

section \<open>Properties of the normalization pass\<close>

text \<open>
  What one pass of the normalization amounts to, stated position by position: a
  backslash is put before a character exactly when the command name followed by the
  lookahead starts there and the character before it, if any, is not a backslash.
  Nothing is asked of that character beyond not being a backslash: it may be a letter.
\<close>

fun escapeOccurrences :: "string \<Rightarrow> char option \<Rightarrow> string \<Rightarrow> string" where
  "escapeOccurrences command previous [] = []"
| "escapeOccurrences command previous (c # cs) =
     (if previous \<noteq> Some backslash \<and> commandHere command (c # cs)
      then [backslash, c] else [c])
     @ escapeOccurrences command (Some c) cs"

text \<open>A command name: not empty, ASCII letters only.\<close>

definition commandName :: "string \<Rightarrow> bool" where
  "commandName command = (command \<noteq> [] \<and> (\<forall>c \<in> set command. isLetter c))"

lemma commands_are_names: "command \<in> set commands \<Longrightarrow> commandName command"
  by (auto simp: commands_def commandName_def isLetter_def)

lemma replaceAll_skip:
  "replaceAll m b k s = (if k = 0 then replaceAll m b 0 s else replaceAll m False 0 (drop k s))"
proof (induction s arbitrary: k b)
  case Nil
  then show ?case by simp
next
  case (Cons c cs)
  show ?case
  proof (cases k)
    case 0
    then show ?thesis by simp
  next
    case (Suc j)
    then show ?thesis using Cons.IH [of False j] by (cases j) auto
  qed
qed

lemma no_command_across_boundary:
  assumes "commandName command" "length u < length command" "lookahead rest"
  shows "\<not> commandHere command (u @ rest)"
proof
  assume h: "commandHere command (u @ rest)"
  then have eq: "take (length command) (u @ rest) = command"
    by (simp add: commandHere_def)
  then have len: "length command \<le> length (u @ rest)"
    by (metis take_all_iff linorder_le_cases)
  then obtain r rs where rest: "rest = r # rs"
    using assms(2) by (cases rest) auto
  have "command ! length u = (u @ rest) ! length u"
    using eq assms(2) by (metis nth_take)
  then have "command ! length u = r" by (simp add: rest)
  moreover have "isLetter (command ! length u)"
    using assms(1,2) by (simp add: commandName_def)
  ultimately show False using assms(3) by (simp add: rest lookahead_def)
qed

lemma escape_through_command:
  assumes "commandName command" "length u < length command" "lookahead rest"
  shows "escapeOccurrences command previous (u @ rest)
       = u @ escapeOccurrences command (if u = [] then previous else Some (last u)) rest"
  using assms(2)
proof (induction u arbitrary: previous)
  case Nil
  then show ?case by simp
next
  case (Cons x u)
  have "\<not> commandHere command ((x # u) @ rest)"
    using no_command_across_boundary [OF assms(1) Cons.prems assms(3)] .
  moreover have "length u < length command" using Cons.prems by simp
  ultimately show ?case using Cons.IH [of "Some x"] by simp
qed

lemma escape_after_letter:
  assumes "commandName command" "lookahead rest"
  shows "escapeOccurrences command previous rest
       = (case rest of [] \<Rightarrow> [] | r # rs \<Rightarrow> r # escapeOccurrences command (Some r) rs)"
proof (cases rest)
  case Nil
  then show ?thesis by simp
next
  case (Cons r rs)
  have "\<not> commandHere command ([] @ rest)"
    using no_command_across_boundary [OF assms(1) _ assms(2), of "[]"] assms(1)
    by (simp add: commandName_def)
  then show ?thesis by (simp add: Cons)
qed


lemma commandHere_split:
  assumes "commandHere command s"
  obtains rest where "s = command @ rest" and "lookahead rest"
    and "drop (length command) s = rest"
proof -
  have "s = command @ drop (length command) s"
    using assms by (metis commandHere_def append_take_drop_id)
  moreover have "lookahead (drop (length command) s)"
    using assms by (simp add: commandHere_def)
  ultimately show thesis using that by blast
qed

lemma escape_matched_command:
  assumes "commandName command" "commandHere command s" "previous \<noteq> Some backslash"
  shows "escapeOccurrences command previous s
       = backslash # command
         @ (case drop (length command) s of
              [] \<Rightarrow> []
            | r # rs \<Rightarrow> r # escapeOccurrences command (Some r) rs)"
proof -
  obtain rest where s0: "s = command @ rest" and la: "lookahead rest"
    and rest: "drop (length command) s = rest"
    using commandHere_split [OF assms(2)] .
  obtain x u where cmd: "command = x # u"
    using assms(1) by (cases command) (auto simp: commandName_def)
  have s: "s = x # u @ rest"
    using s0 by (simp add: cmd)
  have here: "commandHere command (x # u @ rest)"
    using assms(2) s by simp
  have "escapeOccurrences command previous (x # u @ rest)
      = [backslash, x] @ escapeOccurrences command (Some x) (u @ rest)"
    using here assms(3) by simp
  also have "escapeOccurrences command (Some x) (u @ rest)
      = u @ escapeOccurrences command (if u = [] then Some x else Some (last u)) rest"
    by (rule escape_through_command [OF assms(1) _ la]) (simp add: cmd)
  also have "escapeOccurrences command (if u = [] then Some x else Some (last u)) rest
      = (case rest of [] \<Rightarrow> [] | r # rs \<Rightarrow> r # escapeOccurrences command (Some r) rs)"
    by (rule escape_after_letter [OF assms(1) la])
  finally have fin: "escapeOccurrences command previous (x # u @ rest)
      = backslash # command
         @ (case rest of [] \<Rightarrow> [] | r # rs \<Rightarrow> r # escapeOccurrences command (Some r) rs)"
    by (simp add: cmd)
  have d: "drop (length command) (x # u @ rest) = rest"
    by (simp add: cmd)
  show ?thesis
    unfolding s d by (rule fin)
qed

lemma replace_inside:
  assumes "commandName command"
  shows "replaceAll (match_command command) False 0 s
       = (case s of [] \<Rightarrow> [] | c # cs \<Rightarrow> c # escapeOccurrences command (Some c) cs)"
proof (induction s rule: length_induct)
  case (1 s)
  show ?case
  proof (cases s)
    case Nil
    then show ?thesis by simp
  next
    case (Cons c cs)
    show ?thesis
    proof (cases "c \<noteq> backslash \<and> commandHere command cs")
      case True
      let ?rest = "drop (length command) cs"
      have pos: "0 < length command"
        using assms by (simp add: commandName_def)
      have "length ?rest < length s" using Cons by simp
      with 1 have ih: "replaceAll (match_command command) False 0 ?rest
          = (case ?rest of [] \<Rightarrow> [] | r # rs \<Rightarrow> r # escapeOccurrences command (Some r) rs)"
        by blast
      have "replaceAll (match_command command) False 0 (c # cs)
          = c # backslash # command
              @ replaceAll (match_command command) False (length command) cs"
        using True by (simp add: match_command_def)
      also have "replaceAll (match_command command) False (length command) cs
          = replaceAll (match_command command) False 0 ?rest"
        using pos by (subst replaceAll_skip) simp
      finally show ?thesis
        using escape_matched_command [OF assms, of cs "Some c"] True ih
        by (simp add: Cons)
    next
      case False
      have "length cs < length s" using Cons by simp
      with 1 have ih: "replaceAll (match_command command) False 0 cs
          = (case cs of [] \<Rightarrow> [] | d # ds \<Rightarrow> d # escapeOccurrences command (Some d) ds)"
        by blast
      have "replaceAll (match_command command) False 0 (c # cs)
          = c # replaceAll (match_command command) False 0 cs"
        using False by (auto simp: match_command_def)
      then show ?thesis
        using False ih by (cases cs) (auto simp: Cons)
    qed
  qed
qed

lemma replace_command_escapes:
  assumes "commandName command"
  shows "replace (match_command command) s = escapeOccurrences command None s"
proof (cases "commandHere command s")
  case True
  let ?rest = "drop (length command) s"
  obtain x u where cmd: "command = x # u"
    using assms by (cases command) (auto simp: commandName_def)
  have "s \<noteq> []"
    using True cmd by (auto simp: commandHere_def)
  then obtain c cs where s: "s = c # cs"
    by (cases s) auto
  have "replace (match_command command) s
      = backslash # command @ replaceAll (match_command command) False (length command - 1) cs"
    using True by (simp add: replace_def match_command_def s)
  also have "replaceAll (match_command command) False (length command - 1) cs
      = replaceAll (match_command command) False 0 ?rest"
    by (subst replaceAll_skip) (simp add: s cmd)
  also have "\<dots> = (case ?rest of [] \<Rightarrow> [] | r # rs \<Rightarrow> r # escapeOccurrences command (Some r) rs)"
    by (rule replace_inside [OF assms])
  finally show ?thesis
    using escape_matched_command [OF assms True, of None] by simp
next
  case False
  show ?thesis
  proof (cases s)
    case Nil
    then show ?thesis by (simp add: replace_def)
  next
    case (Cons c cs)
    have "match_command command True s = match_command command False s"
      using False by (simp add: match_command_def)
    then have "replace (match_command command) s
        = replaceAll (match_command command) False 0 (c # cs)"
      by (simp add: replace_def Cons)
    also have "\<dots> = c # escapeOccurrences command (Some c) cs"
      by (subst replace_inside [OF assms]) simp
    also have "\<dots> = escapeOccurrences command None s"
      using False by (simp add: Cons)
    finally show ?thesis .
  qed
qed

text \<open>
  What the code computes. The normalization runs one pass per command name, in the
  order of the list; each pass puts a backslash before every occurrence of its command
  that is not immediately preceded by a backslash and not immediately followed by an
  ASCII letter, and copies everything else. The boundary of the word is tested on the
  right only: on the left any character but a backslash will do, a letter too.
\<close>

lemma normalizeLatex_passes:
  "normalizeLatex latex
     = fold (\<lambda>command normalized. escapeOccurrences command None normalized) commands latex"
proof (cases "latex = []")
  case True
  then show ?thesis by (simp add: normalizeLatex_def commands_def)
next
  case False
  have "fold (\<lambda>command normalized. replace (match_command command) normalized) commands latex
      = fold (\<lambda>command normalized. escapeOccurrences command None normalized) commands latex"
    by (rule fold_cong) (auto simp: replace_command_escapes commands_are_names)
  then show ?thesis using False by (simp add: normalizeLatex_def)
qed

lemma normalizeLatex_passes_instance:
  "normalizeLatex (''2sin(x) + '' @ [backslash] @ ''cos(x)'')
     = ''2'' @ [backslash] @ ''sin(x) + '' @ [backslash] @ ''cos(x)''"
  using normalizeLatex_passes [of "''2sin(x) + '' @ [backslash] @ ''cos(x)''"]
  by (simp add: commands_def commandHere_def lookahead_def isLetter_def)

text \<open>
  What the specification asks for: a command name is escaped exactly where it stands
  as a bare identifier that is not escaped yet, that is with neither a letter nor a
  backslash immediately before it and no letter immediately after it.
\<close>

fun escapeBareIdentifiers :: "string \<Rightarrow> char option \<Rightarrow> string \<Rightarrow> string" where
  "escapeBareIdentifiers command previous [] = []"
| "escapeBareIdentifiers command previous (c # cs) =
     (if (case previous of None \<Rightarrow> True | Some p \<Rightarrow> p \<noteq> backslash \<and> \<not> isLetter p)
         \<and> commandHere command (c # cs)
      then [backslash, c] else [c])
     @ escapeBareIdentifiers command (Some c) cs"

text \<open>
  Claim C9. The normalization is to prefix a known command name with a backslash
  exactly where it stands as a bare identifier that is not escaped yet, and to leave
  escaped commands alone. The code does not keep to this: since it tests the boundary
  of the word on the right only, it also escapes a command name that is the end of a
  longer word, and so breaks commands that are escaped already. In \<open>\oint_C f\<close> and
  in \<open>\arcsin x\<close>, both correct as they stand, it puts a second backslash inside the
  command; a reply of the external service that holds \<open>\oint_C f\<close> leaves the
  conversion as \<open>\o\int_C f\<close>. Escaping bare identifiers only would leave both
  strings as they are.
\<close>

theorem normalizeLatex_corrupts_escaped_command:
  "normalizeLatex ([backslash] @ ''oint_C f'')
     = [backslash] @ ''o'' @ [backslash] @ ''int_C f''
   \<and> fold (\<lambda>command normalized. escapeBareIdentifiers command None normalized)
        commands ([backslash] @ ''oint_C f'') = [backslash] @ ''oint_C f''
   \<and> normalizeLatex ([backslash] @ ''arcsin x'')
     = [backslash] @ ''arc'' @ [backslash] @ ''sin x''
   \<and> fold (\<lambda>command normalized. escapeBareIdentifiers command None normalized)
        commands ([backslash] @ ''arcsin x'') = [backslash] @ ''arcsin x''
   \<and> convertMathToLatex True
         (\<lambda>instructions. Some [JString ([backslash] @ ''oint_C f'')])
         ''*closed line integral of f*''
     = Inr [\<lparr>type = Latex, content = [backslash] @ ''o'' @ [backslash] @ ''int_C f''\<rparr>]"
proof (intro conjI)
  show "normalizeLatex ([backslash] @ ''oint_C f'')
     = [backslash] @ ''o'' @ [backslash] @ ''int_C f''"
    by code_simp
  show "fold (\<lambda>command normalized. escapeBareIdentifiers command None normalized)
        commands ([backslash] @ ''oint_C f'') = [backslash] @ ''oint_C f''"
    by code_simp
  show "normalizeLatex ([backslash] @ ''arcsin x'')
     = [backslash] @ ''arc'' @ [backslash] @ ''sin x''"
    by code_simp
  show "fold (\<lambda>command normalized. escapeBareIdentifiers command None normalized)
        commands ([backslash] @ ''arcsin x'') = [backslash] @ ''arcsin x''"
    by code_simp
  show "convertMathToLatex True
         (\<lambda>instructions. Some [JString ([backslash] @ ''oint_C f'')])
         ''*closed line integral of f*''
     = Inr [\<lparr>type = Latex, content = [backslash] @ ''o'' @ [backslash] @ ''int_C f''\<rparr>]"
    by code_simp
qed

text \<open>
  The same happens to a word that is no command at all: in \<open>point\<close> the name
  \<open>int\<close> is the end of a longer word, not a bare identifier, and is escaped.
\<close>

theorem normalizeLatex_escapes_inside_word:
  "normalizeLatex ''point'' = ''po'' @ [backslash] @ ''int''
   \<and> fold (\<lambda>command normalized. escapeBareIdentifiers command None normalized)
        commands ''point'' = ''point''"
  by (simp add: normalizeLatex_def commands_def replace_def match_command_def
      commandHere_def lookahead_def isLetter_def)

section \<open>The spans of the extractor\<close>

text \<open>
  The extractor walks over the document in spans: the text in front of a match, the
  match itself (two asterisks around the captured text), and at the end the tail.
  \<open>scanSpans\<close> repeats the loop of \<open>extractSegments\<close> and records every span,
  whether or not a segment is pushed for it.
\<close>

datatype span = Outside string | Delimited string | Tail string

function scanSpans :: "string \<Rightarrow> nat \<Rightarrow> span list" where
  "scanSpans input lastIndex =
     (case regex_exec input lastIndex of
        None \<Rightarrow> (if lastIndex < length input then [Tail (drop lastIndex input)] else [])
      | Some (index, inside, lastIndex') \<Rightarrow>
          (if index > lastIndex then [Outside (slice input lastIndex index)] else [])
          @ Delimited inside # scanSpans input lastIndex')"
  by pat_completeness auto
termination
proof (relation "measure (\<lambda>(input, lastIndex). length input - lastIndex)")
  show "wf (measure (\<lambda>(input, lastIndex). length input - lastIndex))"
    by simp
next
  fix input :: string and lastIndex index lastIndex' :: nat
    and m :: "nat \<times> string \<times> nat" and inside_next :: "string \<times> nat" and inside :: string
  assume "regex_exec input lastIndex = Some m" "(index, inside_next) = m"
    "(inside, lastIndex') = inside_next"
  then have "regex_exec input lastIndex = Some (index, inside, lastIndex')"
    by simp
  from regex_exec_bounds [OF this]
  show "((input, lastIndex'), (input, lastIndex))
          \<in> measure (\<lambda>(input, lastIndex). length input - lastIndex)"
    by simp
qed

declare scanSpans.simps [simp del]

text \<open>The characters of the document a span stands for.\<close>

fun spanSource :: "span \<Rightarrow> string" where
  "spanSource (Outside t) = t"
| "spanSource (Delimited t) = CHR ''*'' # t @ ''*''"
| "spanSource (Tail t) = t"

text \<open>The text of a span before trimming, without the asterisks.\<close>

fun spanText :: "span \<Rightarrow> string" where
  "spanText (Outside t) = t"
| "spanText (Delimited t) = t"
| "spanText (Tail t) = t"

text \<open>The segment pushed for a span, if any.\<close>

fun spanSegment :: "span \<Rightarrow> segment list" where
  "spanSegment (Outside t) = (if trim t \<noteq> [] then [\<lparr>type = Text, content = trim t\<rparr>] else [])"
| "spanSegment (Delimited t) = (if trim t \<noteq> [] then [\<lparr>type = Math, content = trim t\<rparr>] else [])"
| "spanSegment (Tail t) = (if trim t \<noteq> [] then [\<lparr>type = Text, content = trim t\<rparr>] else [])"

lemma regex_exec_split:
  assumes "regex_exec input lastIndex = Some (index, inside, lastIndex')"
  shows "drop lastIndex input
       = slice input lastIndex index @ CHR ''*'' # inside @ CHR ''*'' # drop lastIndex' input"
proof -
  from assms obtain j where i: "indexOfStar input lastIndex = Some index"
    and j: "indexOfStar input (index + 1) = Some j"
    and inside: "inside = slice input (index + 1) j" and l: "lastIndex' = j + 1"
    by (auto simp: regex_exec_def split: option.splits)
  note bi = indexOfStar_bounds(1-3) [OF i] and bj = indexOfStar_bounds(1-3) [OF j]
  have 1: "drop lastIndex input = slice input lastIndex index @ drop index input"
    using bi(1) by (metis slice_def append_take_drop_id drop_drop le_add_diff_inverse2)
  have 2: "drop index input = CHR ''*'' # drop (index + 1) input"
    using bi(2,3) by (metis Cons_nth_drop_Suc Suc_eq_plus1)
  have 3: "drop (index + 1) input = slice input (index + 1) j @ drop j input"
    using bj(1) by (metis slice_def append_take_drop_id drop_drop le_add_diff_inverse2)
  have 4: "drop j input = CHR ''*'' # drop (j + 1) input"
    using bj(2,3) by (metis Cons_nth_drop_Suc Suc_eq_plus1)
  show ?thesis
    by (simp only: 1 2 3 4 inside l append.simps)
qed

lemma scanSpans_source:
  "lastIndex \<le> length input \<Longrightarrow>
     concat (map spanSource (scanSpans input lastIndex)) = drop lastIndex input"
proof (induction input lastIndex rule: scanSpans.induct)
  case (1 input lastIndex)
  show ?case
  proof (cases "regex_exec input lastIndex")
    case None
    then show ?thesis
      using "1.prems" by (subst scanSpans.simps) simp
  next
    case (Some m)
    obtain index inside lastIndex' where m: "m = (index, inside, lastIndex')"
      by (cases m) auto
    have ex: "regex_exec input lastIndex = Some (index, inside, lastIndex')"
      using Some m by simp
    note b = regex_exec_bounds [OF ex]
    have ih: "concat (map spanSource (scanSpans input lastIndex')) = drop lastIndex' input"
      using "1.IH" [OF Some m [symmetric] refl] b(3) by simp
    have empty: "\<not> lastIndex < index \<Longrightarrow> slice input lastIndex index = []"
      by (simp add: slice_def)
    show ?thesis
      using ih empty
      by (subst scanSpans.simps) (auto simp: ex regex_exec_split [OF ex])
  qed
qed

lemma extract_loop_spans:
  "(case extract_loop input lastIndex segments of
      (lastIndex', segments') \<Rightarrow>
        segments' @ (if lastIndex' < length input
                     then (if trim (drop lastIndex' input) \<noteq> []
                           then [\<lparr>type = Text, content = trim (drop lastIndex' input)\<rparr>]
                           else [])
                     else []))
   = segments @ concat (map spanSegment (scanSpans input lastIndex))"
proof (induction input lastIndex segments rule: extract_loop.induct)
  case (1 input lastIndex segments)
  show ?case
  proof (cases "regex_exec input lastIndex")
    case None
    then show ?thesis
      by (subst extract_loop.simps, subst scanSpans.simps) simp
  next
    case (Some m)
    obtain index inside lastIndex' where m: "m = (index, inside, lastIndex')"
      by (cases m) auto
    have ex: "regex_exec input lastIndex = Some (index, inside, lastIndex')"
      using Some m by simp
    show ?thesis
      using "1.IH" [OF Some m [symmetric] refl refl refl]
      by (subst extract_loop.simps, subst scanSpans.simps) (simp add: ex Let_def)
  qed
qed

text \<open>
  Claim C4, as amended. The spans the extractor walks over (each text in front of a
  match, each match with its two asterisks, and the tail), concatenated in order,
  reconstruct the document exactly. The segments are made from these spans: one for
  each span whose text is not empty after trimming, holding the trimmed text; nothing
  for the other spans and nothing for the asterisks. When no span yields a segment and
  the document is not blank, the single segment is the trimmed document.
\<close>

theorem extractSegments_partitions_input:
  "concat (map spanSource (scanSpans input 0)) = input
   \<and> extractSegments input =
       (let segments = concat (map spanSegment (scanSpans input 0))
        in if segments = [] \<and> trim input \<noteq> []
           then [\<lparr>type = Text, content = trim input\<rparr>]
           else segments)"
proof
  show "concat (map spanSource (scanSpans input 0)) = input"
    using scanSpans_source [of 0 input] by simp
  show "extractSegments input =
       (let segments = concat (map spanSegment (scanSpans input 0))
        in if segments = [] \<and> trim input \<noteq> []
           then [\<lparr>type = Text, content = trim input\<rparr>]
           else segments)"
  proof -
    define S where "S = concat (map spanSegment (scanSpans input 0))"
    obtain k segs where loop: "extract_loop input 0 [] = (k, segs)"
      by (cases "extract_loop input 0 []") auto
    define T where "T = (if k < length input
                     then (if trim (drop k input) \<noteq> []
                           then [\<lparr>type = Text, content = trim (drop k input)\<rparr>]
                           else [])
                     else [])"
    have E: "segs @ T = S"
      using extract_loop_spans [of input 0 "[]"] by (simp add: loop S_def T_def)
    have "extractSegments input
        = (if segs @ T = [] \<and> trim input \<noteq> []
           then (segs @ T) @ [\<lparr>type = Text, content = trim input\<rparr>]
           else segs @ T)"
      by (simp add: extractSegments_def loop T_def Let_def)
    also have "\<dots> = (if S = [] \<and> trim input \<noteq> []
           then [\<lparr>type = Text, content = trim input\<rparr>] else S)"
      unfolding E by simp
    finally show ?thesis
      by (simp add: S_def Let_def)
  qed
qed

section \<open>Conversion without and with the external service\<close>

lemma trim_eq_Nil: "trim s = [] \<longleftrightarrow> (\<forall>c \<in> set s. isSpace c)"
proof
  assume e: "trim s = []"
  have "dropWhile isSpace s = []"
  proof (rule ccontr)
    assume ne: "dropWhile isSpace s \<noteq> []"
    then have h: "\<not> isSpace (hd (dropWhile isSpace s))" by (rule hd_dropWhile)
    have "hd (dropWhile isSpace s) \<in> set (rev (dropWhile isSpace s))"
      using ne by simp
    moreover have "dropWhile isSpace (rev (dropWhile isSpace s)) = []"
      using e by (simp add: trim_def)
    then have "\<forall>x \<in> set (rev (dropWhile isSpace s)). isSpace x"
      by (simp only: dropWhile_eq_Nil_conv)
    ultimately show False using h by blast
  qed
  then show "\<forall>c \<in> set s. isSpace c" by (simp only: dropWhile_eq_Nil_conv)
next
  assume "\<forall>c \<in> set s. isSpace c"
  then show "trim s = []" by (auto simp: trim_def dest: set_dropWhileD)
qed

lemma trim_idem: "trim (trim s) = trim s"
proof -
  define t where "t = dropWhile isSpace s"
  define u where "u = dropWhile isSpace (rev t)"
  have ts: "trim s = rev u" by (simp add: trim_def t_def u_def)
  have 1: "dropWhile isSpace (rev u) = rev u"
  proof (cases "u = []")
    case True
    then show ?thesis by simp
  next
    case False
    then have tne: "t \<noteq> []" by (auto simp: u_def)
    then have h: "\<not> isSpace (hd t)" unfolding t_def by (rule hd_dropWhile)
    obtain v where v: "rev t = v @ u"
      unfolding u_def by (metis takeWhile_dropWhile_id)
    have "last (rev t) = last u" using False v by simp
    then have "hd t = last u" using tne by (simp add: last_rev)
    then have "\<not> isSpace (hd (rev u))" using h False by (simp add: hd_rev)
    then show ?thesis using False by (cases "rev u") auto
  qed
  have 2: "dropWhile isSpace u = u" by (simp add: u_def)
  show ?thesis
    unfolding ts by (simp add: trim_def 1 2)
qed

text \<open>What every extracted segment satisfies: its content is a non-empty trimmed
  text and its type is \<open>'math'\<close> or \<open>'text'\<close>.\<close>

definition wellFormed :: "segment \<Rightarrow> bool" where
  "wellFormed segment =
     (content segment \<noteq> [] \<and> trim (content segment) = content segment
      \<and> (type segment = Math \<or> type segment = Text))"

lemma wellFormed_trim:
  "trim t \<noteq> [] \<Longrightarrow> wellFormed \<lparr>type = Text, content = trim t\<rparr>"
  "trim t \<noteq> [] \<Longrightarrow> wellFormed \<lparr>type = Math, content = trim t\<rparr>"
  by (simp_all add: wellFormed_def trim_idem)

lemma extract_loop_wellFormed:
  "list_all wellFormed segments \<Longrightarrow>
     list_all wellFormed (snd (extract_loop input lastIndex segments))"
proof (induction input lastIndex segments rule: extract_loop.induct)
  case (1 input lastIndex segments)
  show ?case
  proof (cases "regex_exec input lastIndex")
    case None
    then show ?thesis using "1.prems" by (subst extract_loop.simps) simp
  next
    case (Some m)
    obtain index inside lastIndex' where m: "m = (index, inside, lastIndex')"
      by (cases m) auto
    define segments1 where "segments1 =
        (if index > lastIndex
         then (let outside = slice input lastIndex index
               in if trim outside \<noteq> []
                  then segments @ [\<lparr>type = Text, content = trim outside\<rparr>]
                  else segments)
         else segments)"
    define segments2 where "segments2 =
        (if trim inside \<noteq> []
         then segments1 @ [\<lparr>type = Math, content = trim inside\<rparr>]
         else segments1)"
    have w1: "list_all wellFormed segments1"
      using "1.prems" by (simp add: segments1_def Let_def wellFormed_trim)
    have w2: "list_all wellFormed segments2"
      using w1 by (simp add: segments2_def wellFormed_trim)
    have "list_all wellFormed (snd (extract_loop input lastIndex' segments2))"
      using "1.IH" [OF Some m [symmetric] refl refl refl] w2
      unfolding segments1_def segments2_def by blast
    moreover have "extract_loop input lastIndex segments
        = extract_loop input lastIndex' segments2"
      by (subst extract_loop.simps) (simp add: Some m segments1_def segments2_def Let_def)
    ultimately show ?thesis by simp
  qed
qed

lemma extractSegments_wellFormed: "list_all wellFormed (extractSegments input)"
proof -
  obtain k segs where loop: "extract_loop input 0 [] = (k, segs)"
    by (cases "extract_loop input 0 []") auto
  have "list_all wellFormed segs"
    using extract_loop_wellFormed [of "[]" input 0] by (simp add: loop)
  then show ?thesis
    by (simp add: extractSegments_def loop Let_def wellFormed_trim)
qed


text \<open>
  A text has one of the known shapes when one of the three expressions of the fallback
  converter matches somewhere in it.
\<close>

fun matchesFrom :: "matcher \<Rightarrow> bool \<Rightarrow> string \<Rightarrow> bool" where
  "matchesFrom m atStart [] = False"
| "matchesFrom m atStart (c # cs) =
     (case m atStart (c # cs) of Some found \<Rightarrow> True | None \<Rightarrow> matchesFrom m False cs)"

definition knownShape :: "string \<Rightarrow> bool" where
  "knownShape s =
     (matchesFrom match_squareroot True s \<or> matchesFrom match_integral True s
      \<or> matchesFrom match_fraction True s)"

lemma replaceAll_no_match:
  "\<not> matchesFrom m atStart s \<Longrightarrow> replaceAll m atStart 0 s = s"
  by (induction s arbitrary: atStart) (auto split: option.splits)

lemma basicInlineConverter_unknown:
  assumes "\<not> knownShape s"
  shows "basicInlineConverter s = trim s"
  using assms
  by (simp add: knownShape_def basicInlineConverter_def replace_def replaceAll_no_match)

lemma replaceAll_keeps_ink:
  assumes "\<And>atStart s r n. m atStart s = Some (r, n) \<Longrightarrow> \<exists>c \<in> set r. \<not> isSpace c"
    and "\<exists>c \<in> set s. \<not> isSpace c"
  shows "\<exists>c \<in> set (replaceAll m atStart 0 s). \<not> isSpace c"
  using assms(2)
proof (induction s arbitrary: atStart)
  case Nil
  then show ?case by simp
next
  case (Cons c cs)
  show ?case
  proof (cases "m atStart (c # cs)")
    case None
    show ?thesis
    proof (cases "isSpace c")
      case True
      then have "\<exists>c \<in> set cs. \<not> isSpace c" using Cons.prems by auto
      from Cons.IH [OF this] show ?thesis by (simp add: None)
    next
      case False
      then show ?thesis by (simp add: None)
    qed
  next
    case (Some found)
    obtain r n where found: "found = (r, n)" by (cases found) auto
    have "\<exists>c \<in> set r. \<not> isSpace c"
      using assms(1) Some found by blast
    then show ?thesis by (auto simp: Some found)
  qed
qed

lemma backslash_ink: "\<not> isSpace backslash"
  by (simp add: isSpace_def)

lemma match_squareroot_ink:
  "match_squareroot atStart s = Some (r, n) \<Longrightarrow> \<exists>c \<in> set r. \<not> isSpace c"
  using backslash_ink by (auto simp: match_squareroot_def split: option.splits)

lemma match_integral_ink:
  "match_integral atStart s = Some (r, n) \<Longrightarrow> \<exists>c \<in> set r. \<not> isSpace c"
  using backslash_ink by (auto simp: match_integral_def split: option.splits)

lemma match_fraction_ink:
  "match_fraction atStart s = Some (r, n) \<Longrightarrow> \<exists>c \<in> set r. \<not> isSpace c"
  using backslash_ink by (auto simp: match_fraction_def split: option.splits)

lemma basicInlineConverter_not_empty:
  assumes "trim s \<noteq> []"
  shows "basicInlineConverter s \<noteq> []"
proof -
  have 0: "\<exists>c \<in> set s. \<not> isSpace c"
    using assms by (simp add: trim_eq_Nil)
  have 1: "\<exists>c \<in> set (replace match_squareroot s). \<not> isSpace c"
    unfolding replace_def using match_squareroot_ink 0 by (rule replaceAll_keeps_ink)
  have 2: "\<exists>c \<in> set (replace match_integral (replace match_squareroot s)). \<not> isSpace c"
    unfolding replace_def [of match_integral]
    using match_integral_ink 1 by (rule replaceAll_keeps_ink)
  have 3: "\<exists>c \<in> set (replace match_fraction
              (replace match_integral (replace match_squareroot s))). \<not> isSpace c"
    unfolding replace_def [of match_fraction]
    using match_fraction_ink 2 by (rule replaceAll_keeps_ink)
  then show ?thesis
    by (simp add: basicInlineConverter_def trim_eq_Nil)
qed

lemma replace_command_not_empty:
  "s \<noteq> [] \<Longrightarrow> replace (match_command command) s \<noteq> []"
  by (cases s) (auto simp: replace_def match_command_def split: option.splits)

lemma fold_not_empty:
  assumes "\<And>x s. s \<noteq> [] \<Longrightarrow> f x s \<noteq> []"
  shows "s \<noteq> [] \<Longrightarrow> fold f xs s \<noteq> []"
  by (induction xs arbitrary: s) (auto simp: assms)

lemma normalizeLatex_not_empty:
  assumes "latex \<noteq> []"
  shows "normalizeLatex latex \<noteq> []"
proof -
  have "fold (\<lambda>command normalized. replace (match_command command) normalized) commands latex
      \<noteq> []"
    using assms by (rule fold_not_empty [rotated]) (rule replace_command_not_empty)
  then show ?thesis using assms by (simp add: normalizeLatex_def)
qed


lemma filterBoolean_Some: "filterBoolean (map Some xs) = xs"
  by (induction xs) auto

text \<open>What the conversion without the external service makes of a segment.\<close>

definition render :: "segment \<Rightarrow> segment" where
  "render segment =
     (if type segment = Math
      then \<lparr>type = Latex, content = normalizeLatex (basicInlineConverter (content segment))\<rparr>
      else \<lparr>type = Text, content = content segment\<rparr>)"

lemma rendered_not_empty:
  "wellFormed segment \<Longrightarrow> normalizeLatex (basicInlineConverter (content segment)) \<noteq> []"
  by (simp add: wellFormed_def normalizeLatex_not_empty basicInlineConverter_not_empty)

lemma at_append_length: "at (pre @ x # post) (length pre) = Some x"
  by (simp add: at_def)

lemma orderSegments_fallback:
  assumes "list_all wellFormed segments"
  shows "orderSegments
           (pre @ map (\<lambda>segment. basicInlineConverter (content segment))
                    (filter (\<lambda>segment. type segment = Math) segments))
           (length pre) segments
       = map (\<lambda>segment. Some (render segment)) segments"
  using assms
proof (induction segments arbitrary: pre)
  case Nil
  then show ?case by simp
next
  case (Cons segment rest)
  have wf: "wellFormed segment" and wfr: "list_all wellFormed rest"
    using Cons.prems by simp_all
  have ne: "content segment \<noteq> []" using wf by (simp add: wellFormed_def)
  show ?case
  proof (cases "type segment = Math")
    case True
    have "orderSegments
           ((pre @ [basicInlineConverter (content segment)])
              @ map (\<lambda>segment. basicInlineConverter (content segment))
                  (filter (\<lambda>segment. type segment = Math) rest))
           (length (pre @ [basicInlineConverter (content segment)])) rest
        = map (\<lambda>segment. Some (render segment)) rest"
      by (rule Cons.IH [OF wfr])
    then show ?thesis
      using True ne rendered_not_empty [OF wf]
      by (simp add: at_append_length render_def Let_def)
  next
    case False
    then show ?thesis
      using ne Cons.IH [OF wfr, of pre] by (simp add: render_def)
  qed
qed

lemma no_math_all_text:
  assumes "list_all wellFormed segments"
    and "filter (\<lambda>segment. type segment = Math) segments = []"
  shows "map (\<lambda>segment. if content segment \<noteq> []
                          then Some \<lparr>type = Text, content = content segment\<rparr>
                          else None) segments
       = map (\<lambda>segment. Some (render segment)) segments"
  using assms
  by (induction segments) (auto simp: wellFormed_def render_def split: if_splits)

lemma convertMathToLatex_fallback:
  "convertMathToLatex False service input = Inr (map render (extractSegments input))"
proof -
  let ?segments = "extractSegments input"
  let ?math = "filter (\<lambda>segment. type segment = Math) ?segments"
  have wf: "list_all wellFormed ?segments" by (rule extractSegments_wellFormed)
  have some: "filterBoolean (map (\<lambda>segment. Some (render segment)) ?segments)
      = map render ?segments"
    using filterBoolean_Some [of "map render ?segments"] by (simp add: comp_def)
  show ?thesis
  proof (cases "?math = []")
    case True
    then have "convertMathToLatex False service input
        = Inr (filterBoolean
                (map (\<lambda>segment.
                        if content segment \<noteq> []
                        then Some \<lparr>type = Text, content = content segment\<rparr>
                        else None)
                   ?segments))"
      by (simp add: convertMathToLatex_def Let_def)
    also have "\<dots> = Inr (map render ?segments)"
      unfolding no_math_all_text [OF wf True] some ..
    finally show ?thesis .
  next
    case False
    have "orderSegments (map (\<lambda>segment. basicInlineConverter (content segment)) ?math)
            0 ?segments
        = map (\<lambda>segment. Some (render segment)) ?segments"
      using orderSegments_fallback [OF wf, of "[]"] by simp
    then have o: "filterBoolean (orderSegments
            (map (\<lambda>segment. basicInlineConverter (content segment)) ?math) 0 ?segments)
        = map render ?segments"
      using some by simp
    have "convertMathToLatex False service input
        = Inr (filterBoolean (orderSegments
            (map (\<lambda>segment. basicInlineConverter (content segment)) ?math) 0 ?segments))"
      using False by (simp add: convertMathToLatex_def Let_def)
    then show ?thesis
      unfolding o .
  qed
qed

text \<open>
  Claim C2, as amended. Without the external service the conversion never aborts and
  drops nothing: it returns one rendered segment for each extracted segment. For an
  instruction that matches none of the known shapes the fallback converter returns the
  instruction's own text, and the segment rendered at its position is a formula whose
  content is that text after normalization; it is not empty.
\<close>

theorem unknown_shape_is_passed_through:
  assumes "j < length (extractSegments input)"
    and "type (extractSegments input ! j) = Math"
    and "\<not> knownShape (content (extractSegments input ! j))"
  shows "\<exists>rendered.
           convertMathToLatex False service input = Inr rendered
         \<and> length rendered = length (extractSegments input)
         \<and> rendered ! j
             = \<lparr>type = Latex, content = normalizeLatex (content (extractSegments input ! j))\<rparr>
         \<and> content (rendered ! j) \<noteq> []"
proof -
  let ?segment = "extractSegments input ! j"
  have wf: "wellFormed ?segment"
    using extractSegments_wellFormed [of input] assms(1) by (simp add: list_all_length)
  then have t: "trim (content ?segment) = content ?segment" and ne: "content ?segment \<noteq> []"
    by (simp_all add: wellFormed_def)
  have b: "basicInlineConverter (content ?segment) = content ?segment"
    using basicInlineConverter_unknown [OF assms(3)] t by simp
  have "map render (extractSegments input) ! j
      = \<lparr>type = Latex, content = normalizeLatex (content ?segment)\<rparr>"
    using assms(1,2) b by (simp add: render_def)
  moreover have "normalizeLatex (content ?segment) \<noteq> []"
    using ne by (rule normalizeLatex_not_empty)
  ultimately show ?thesis
    by (simp add: convertMathToLatex_fallback)
qed


lemma backfill_nth:
  assumes "i < length mathSegments"
  shows "backfill mathSegments latexList ! i
       = (if i < length latexList then latexList ! i
          else basicInlineConverter (content (mathSegments ! i)))"
  using assms by (simp add: backfill_def at_def)

lemma length_backfill: "length (backfill mathSegments latexList) = length mathSegments"
  by (simp add: backfill_def)

lemma filter_nth_position:
  assumes "j < length xs" and "P (xs ! j)"
  shows "length (filter P (take j xs)) < length (filter P xs)"
    and "filter P xs ! length (filter P (take j xs)) = xs ! j"
proof -
  have xs: "xs = take j xs @ xs ! j # drop (Suc j) xs"
    using assms(1) by (simp add: id_take_nth_drop)
  have f: "filter P xs = filter P (take j xs) @ xs ! j # filter P (drop (Suc j) xs)"
    by (subst xs) (simp add: assms(2))
  show "length (filter P (take j xs)) < length (filter P xs)"
    by (subst f) simp
  show "filter P xs ! length (filter P (take j xs)) = xs ! j"
    by (subst f) (simp add: nth_append)
qed

lemma orderSegments_nth:
  assumes "list_all wellFormed segments" and "j < length segments"
    and "type (segments ! j) = Math"
  shows "orderSegments latexList latexIndex segments ! j
       = (let converted = normalizeLatex
                (case at latexList
                        (latexIndex
                         + length (filter (\<lambda>segment. type segment = Math) (take j segments))) of
                   Some l \<Rightarrow> l | None \<Rightarrow> [])
          in if converted = [] then None else Some \<lparr>type = Latex, content = converted\<rparr>)"
  using assms
proof (induction segments arbitrary: latexIndex j)
  case Nil
  then show ?case by simp
next
  case (Cons segment rest)
  have ne: "content segment \<noteq> []" using Cons.prems(1) by (simp add: wellFormed_def)
  have wfr: "list_all wellFormed rest" using Cons.prems(1) by simp
  show ?case
  proof (cases j)
    case 0
    then show ?thesis using Cons.prems(3) ne by (simp add: Let_def)
  next
    case (Suc k)
    have k: "k < length rest" and m: "type (rest ! k) = Math"
      using Cons.prems(2,3) Suc by simp_all
    show ?thesis
    proof (cases "type segment = Math")
      case True
      then show ?thesis
        using Cons.IH [OF wfr k m, of "latexIndex + 1"] ne
        by (simp add: Suc Let_def)
    next
      case False
      then show ?thesis
        using Cons.IH [OF wfr k m, of latexIndex] ne
        by (simp add: Suc Let_def)
    qed
  qed
qed

lemma backfill_after_short_list:
  assumes "convertWithOpenAI service
             (map content (filter (\<lambda>segment. type segment = Math) (extractSegments input)))
           = Inr latexList"
    and "length latexList
           < length (filter (\<lambda>segment. type segment = Math) (extractSegments input))"
  shows "convertMathToLatex True service input
           = Inr (filterBoolean (orderSegments
                   (backfill (filter (\<lambda>segment. type segment = Math) (extractSegments input))
                      latexList)
                   0 (extractSegments input)))
    \<and> length (backfill (filter (\<lambda>segment. type segment = Math) (extractSegments input))
                 latexList)
        = length (filter (\<lambda>segment. type segment = Math) (extractSegments input))
    \<and> (\<forall>i. length latexList \<le> i
           \<and> i < length (filter (\<lambda>segment. type segment = Math) (extractSegments input))
         \<longrightarrow> backfill (filter (\<lambda>segment. type segment = Math) (extractSegments input))
               latexList ! i
             = basicInlineConverter
                 (content (filter (\<lambda>segment. type segment = Math) (extractSegments input) ! i)))
    \<and> (\<forall>j. j < length (extractSegments input)
           \<and> type (extractSegments input ! j) = Math
           \<and> length latexList
                \<le> length (filter (\<lambda>segment. type segment = Math)
                            (take j (extractSegments input)))
         \<longrightarrow> orderSegments
               (backfill (filter (\<lambda>segment. type segment = Math) (extractSegments input))
                  latexList)
               0 (extractSegments input) ! j
             = Some \<lparr>type = Latex,
                     content = normalizeLatex
                       (basicInlineConverter (content (extractSegments input ! j)))\<rparr>)"
proof -
  define segments where "segments = extractSegments input"
  define mathSegments where "mathSegments = filter (\<lambda>segment. type segment = Math) segments"
  have wf: "list_all wellFormed segments"
    unfolding segments_def by (rule extractSegments_wellFormed)
  have a1: "convertWithOpenAI service (map content mathSegments) = Inr latexList"
    and a2: "length latexList < length mathSegments"
    using assms by (simp_all add: segments_def mathSegments_def)
  have ne: "mathSegments \<noteq> []" using a2 by auto
  have 1: "convertMathToLatex True service input
      = Inr (filterBoolean (orderSegments (backfill mathSegments latexList) 0 segments))"
    using ne a1 a2
    by (simp add: convertMathToLatex_def Let_def segments_def [symmetric]
        mathSegments_def [symmetric])
  have 2: "length (backfill mathSegments latexList) = length mathSegments"
    by (rule length_backfill)
  have 3: "\<forall>i. length latexList \<le> i \<and> i < length mathSegments
         \<longrightarrow> backfill mathSegments latexList ! i
             = basicInlineConverter (content (mathSegments ! i))"
    by (simp add: backfill_nth)
  have 4: "\<forall>j. j < length segments \<and> type (segments ! j) = Math
           \<and> length latexList
                \<le> length (filter (\<lambda>segment. type segment = Math) (take j segments))
         \<longrightarrow> orderSegments (backfill mathSegments latexList) 0 segments ! j
             = Some \<lparr>type = Latex,
                     content = normalizeLatex (basicInlineConverter (content (segments ! j)))\<rparr>"
  proof (intro allI impI)
    fix j
    assume h: "j < length segments \<and> type (segments ! j) = Math
           \<and> length latexList
                \<le> length (filter (\<lambda>segment. type segment = Math) (take j segments))"
    define i where "i = length (filter (\<lambda>segment. type segment = Math) (take j segments))"
    have i: "i < length mathSegments" and mi: "mathSegments ! i = segments ! j"
      using filter_nth_position [of j segments "\<lambda>segment. type segment = Math"] h
      by (simp_all add: i_def mathSegments_def)
    have le: "length latexList \<le> i"
      using h by (simp add: i_def)
    have "at (backfill mathSegments latexList) i
        = Some (basicInlineConverter (content (segments ! j)))"
      using i le by (simp add: at_def length_backfill backfill_nth mi)
    moreover have "wellFormed (segments ! j)"
      using wf h by (simp add: list_all_length)
    then have "normalizeLatex (basicInlineConverter (content (segments ! j))) \<noteq> []"
      by (rule rendered_not_empty)
    ultimately show "orderSegments (backfill mathSegments latexList) 0 segments ! j
             = Some \<lparr>type = Latex,
                     content = normalizeLatex (basicInlineConverter (content (segments ! j)))\<rparr>"
      using orderSegments_nth [OF wf, of j "backfill mathSegments latexList" 0] h
      by (simp add: i_def Let_def)
  qed
  show ?thesis
    using 1 2 3 4 unfolding segments_def mathSegments_def by blast
qed

section \<open>Instances of the extraction and of the fallback conversion\<close>

text \<open>
  Claim C4, as the specification words it. The original span of a segment is the text
  it was made from before trimming: the text of the span that yielded it, or the whole
  document for the single segment of the last branch.
\<close>

definition originalSpans :: "string \<Rightarrow> string list" where
  "originalSpans input =
     (let produced = filter (\<lambda>sp. spanSegment sp \<noteq> []) (scanSpans input 0)
      in if produced = [] \<and> trim input \<noteq> [] then [input] else map spanText produced)"

text \<open>
  The document \<open>a* *b\<close> yields the two text segments \<open>a\<close> and \<open>b\<close>; their
  original spans concatenate to \<open>ab\<close>: the asterisks and the blank between them
  belong to no segment. Counting the asterisks of a match as part of its span does not
  help, since the match \<open>* *\<close> yields no segment at all.
\<close>

theorem extractSegments_loses_delimiters:
  "map content (extractSegments ''a* *b'') = map trim (originalSpans ''a* *b'')
   \<and> concat (originalSpans ''a* *b'') = ''ab''
   \<and> concat (originalSpans ''a* *b'') \<noteq> ''a* *b''
   \<and> concat (map spanSource
         (filter (\<lambda>sp. spanSegment sp \<noteq> []) (scanSpans ''a* *b'' 0))) \<noteq> ''a* *b''"
proof -
  have s: "scanSpans ''a* *b'' 0 = [Outside ''a'', Delimited '' '', Tail ''b'']"
    by code_simp
  have e: "extractSegments ''a* *b''
      = [\<lparr>type = Text, content = ''a''\<rparr>, \<lparr>type = Text, content = ''b''\<rparr>]"
    by code_simp
  show ?thesis
    by (simp add: originalSpans_def s e trim_def isSpace_def)
qed

theorem extractSegments_partitions_input_witness:
  "concat (map spanSource (scanSpans ''x *a* y'' 0)) = ''x *a* y''
   \<and> extractSegments ''x *a* y''
       = [\<lparr>type = Text, content = ''x''\<rparr>, \<lparr>type = Math, content = ''a''\<rparr>,
          \<lparr>type = Text, content = ''y''\<rparr>]"
proof -
  have s: "scanSpans ''x *a* y'' 0 = [Outside ''x '', Delimited ''a'', Tail '' y'']"
    by code_simp
  show ?thesis
    using extractSegments_partitions_input [of "''x *a* y''"]
    unfolding s by (simp add: trim_def isSpace_def)
qed

text \<open>
  Claim C2, as the specification words it, fails on \<open>*hello world*\<close>: the
  instruction has none of the known shapes, and a formula is rendered for it.
\<close>

theorem unknown_shape_is_rendered:
  "\<not> knownShape ''hello world''
   \<and> convertMathToLatex False (\<lambda>instructions. None) ''*hello world*''
       = Inr [\<lparr>type = Latex, content = ''hello world''\<rparr>]"
  by code_simp

theorem unknown_shape_is_passed_through_witness:
  "0 < length (extractSegments ''*hello world* is steep'')
   \<and> type (extractSegments ''*hello world* is steep'' ! 0) = Math
   \<and> \<not> knownShape (content (extractSegments ''*hello world* is steep'' ! 0))
   \<and> (\<exists>rendered.
         convertMathToLatex False (\<lambda>instructions. None) ''*hello world* is steep''
           = Inr rendered
       \<and> length rendered = 2
       \<and> rendered ! 0 = \<lparr>type = Latex, content = ''hello world''\<rparr>)"
proof -
  have e: "extractSegments ''*hello world* is steep''
      = [\<lparr>type = Math, content = ''hello world''\<rparr>, \<lparr>type = Text, content = ''is steep''\<rparr>]"
    by code_simp
  have k: "\<not> knownShape ''hello world''"
    by code_simp
  have n: "normalizeLatex ''hello world'' = ''hello world''"
    by code_simp
  have h1: "0 < length (extractSegments ''*hello world* is steep'')"
    and h2: "type (extractSegments ''*hello world* is steep'' ! 0) = Math"
    and h3: "\<not> knownShape (content (extractSegments ''*hello world* is steep'' ! 0))"
    using k by (simp_all add: e)
  from unknown_shape_is_passed_through [OF h1 h2 h3, of "\<lambda>instructions. None"]
  show ?thesis
    using h1 h2 h3 by (auto simp: e n numeral_2_eq_2)
qed

section \<open>The editor (\<open>App.tsx\<close>)\<close>

text \<open>
  The editor has its own \<open>extractSegments\<close>. Its loop is the loop of the backend,
  over the same regular expression, but it tests the trimmed text and pushes the text
  as it stands. (In the earlier version of the editor the function trims what it
  pushes and computes exactly what the backend's \<open>extractSegments\<close> computes.)
\<close>

function App_extract_loop :: "string \<Rightarrow> nat \<Rightarrow> segment list \<Rightarrow> nat \<times> segment list" where
  "App_extract_loop doc lastIndex output =
     (case regex_exec doc lastIndex of
        None \<Rightarrow> (lastIndex, output)
      | Some (index, inside, lastIndex') \<Rightarrow>
          (let output1 =
                 (if index > lastIndex
                  then (let outside = slice doc lastIndex index
                        in if trim outside \<noteq> []
                           then output @ [\<lparr>type = Text, content = outside\<rparr>]
                           else output)
                  else output);
               output2 =
                 (if trim inside \<noteq> []
                  then output1 @ [\<lparr>type = Math, content = inside\<rparr>]
                  else output1)
           in App_extract_loop doc lastIndex' output2))"
  by pat_completeness auto
termination
proof (relation "measure (\<lambda>(doc, lastIndex, output). length doc - lastIndex)")
  show "wf (measure (\<lambda>(doc, lastIndex, output). length doc - lastIndex))"
    by simp
next
  fix doc :: string and lastIndex index lastIndex' :: nat
    and out out1 out2 :: "segment list"
    and m :: "nat \<times> string \<times> nat" and inside_next :: "string \<times> nat" and inside :: string
  assume "regex_exec doc lastIndex = Some m" "(index, inside_next) = m"
    "(inside, lastIndex') = inside_next"
  then have "regex_exec doc lastIndex = Some (index, inside, lastIndex')"
    by simp
  from regex_exec_bounds [OF this]
  show "((doc, lastIndex', out2), (doc, lastIndex, out))
          \<in> measure (\<lambda>(doc, lastIndex, output). length doc - lastIndex)"
    by simp
qed

declare App_extract_loop.simps [simp del]

definition App_extractSegments :: "string \<Rightarrow> segment list" where
  "App_extractSegments doc =
     (let (lastIndex, output) = App_extract_loop doc 0 [];
          output1 =
            (if lastIndex < length doc
             then (let tail = drop lastIndex doc
                   in if trim tail \<noteq> []
                      then output @ [\<lparr>type = Text, content = tail\<rparr>]
                      else output)
             else output)
      in if output1 = [] \<and> trim doc \<noteq> []
         then output1 @ [\<lparr>type = Text, content = doc\<rparr>]
         else output1)"

text \<open>The state of the component that the conversion effect reads and writes:
  \<open>segments\<close>, \<open>status\<close>, \<open>errorMessage\<close> and \<open>latexCacheRef.current\<close>.\<close>

datatype status = Idle | Loading | Error

type_synonym cache = "string \<rightharpoonup> string"

record app =
  segments :: "segment list"
  status :: status
  errorMessage :: "string option"
  latexCache :: cache

definition initialApp :: app where
  "initialApp =
     \<lparr>segments = [], status = Idle, errorMessage = None, latexCache = Map.empty\<rparr>"

text \<open>
  The callback that builds \<open>hydrated\<close>: the rendered segment, and whether the
  callback sets \<open>needsConversion\<close>. \<open>if (cached)\<close> holds for a string that is
  present and not empty.
\<close>

definition hydrateSegment :: "cache \<Rightarrow> segment \<Rightarrow> segment \<times> bool" where
  "hydrateSegment cache segment =
     (if type segment = Text then (\<lparr>type = Text, content = content segment\<rparr>, False)
      else (case cache (content segment) of
              None \<Rightarrow> (\<lparr>type = Placeholder, content = content segment\<rparr>, True)
            | Some cached \<Rightarrow>
                if cached \<noteq> [] then (\<lparr>type = Latex, content = cached\<rparr>, False)
                else (\<lparr>type = Placeholder, content = content segment\<rparr>, True)))"

text \<open>
  The synchronous part of the effect, for a given \<open>extractSegments\<close>: the new state,
  and the \<open>mathSnapshot\<close> when a request \<open>POST /convert\<close> is scheduled (\<open>None\<close>
  when the effect returns without scheduling one).
\<close>

definition conversionEffect ::
    "(string \<Rightarrow> segment list) \<Rightarrow> app \<Rightarrow> string \<Rightarrow> app \<times> string list option" where
  "conversionEffect extractor st input =
     (if trim input = []
      then (st\<lparr>segments := [], status := Idle, errorMessage := None\<rparr>, None)
      else
       (let structured = extractor input;
            hasMath = list_ex (\<lambda>segment. type segment = Math) structured
        in if \<not> hasMath
           then (st\<lparr>segments :=
                       map (\<lambda>segment. \<lparr>type = Text, content = content segment\<rparr>) structured,
                     status := Idle, errorMessage := None\<rparr>, None)
           else
            (let hydrated = map (\<lambda>segment. fst (hydrateSegment (latexCache st) segment))
                              structured;
                 needsConversion =
                   list_ex (\<lambda>segment. snd (hydrateSegment (latexCache st) segment)) structured
             in if \<not> needsConversion
                then (st\<lparr>segments := hydrated, status := Idle, errorMessage := None\<rparr>, None)
                else (st\<lparr>segments := hydrated, status := Loading, errorMessage := None\<rparr>,
                      Some (map content
                              (filter (\<lambda>segment. type segment = Math) structured))))))"

text \<open>
  How the request ends: resolved with the \<open>segments\<close> of the reply, if it has any;
  rejected, with the error message of the reply, if it has one; or ignored, because the
  effect was cleaned up in the meantime.
\<close>

datatype reply = Resolved "segment list option" | Rejected "string option" | Ignored

text \<open>The \<open>forEach\<close> that fills the copy of the cache.\<close>

definition storeLatex :: "string list \<Rightarrow> segment list \<Rightarrow> cache \<Rightarrow> cache" where
  "storeLatex mathSnapshot latexSegments cache =
     fold (\<lambda>(segment, index) cache.
             case at mathSnapshot index of
               None \<Rightarrow> cache
             | Some original \<Rightarrow>
                 if original \<noteq> [] then cache(original \<mapsto> content segment) else cache)
       (zip latexSegments [0 ..< length latexSegments]) cache"

definition onReply :: "app \<Rightarrow> string list \<Rightarrow> reply \<Rightarrow> app" where
  "onReply st mathSnapshot reply =
     (case reply of
        Resolved data \<Rightarrow>
          (let received = (case data of None \<Rightarrow> [] | Some s \<Rightarrow> s);
               latexSegments = filter (\<lambda>segment. type segment = Latex) received
           in st\<lparr>segments := received,
                 latexCache := storeLatex mathSnapshot latexSegments (latexCache st),
                 status := Idle\<rparr>)
      | Rejected message \<Rightarrow>
          st\<lparr>status := Error,
              errorMessage :=
                Some (case message of None \<Rightarrow> ''Unable to convert input.'' | Some m \<Rightarrow> m)\<rparr>
      | Ignored \<Rightarrow> st)"

text \<open>
  One reconciliation: the effect, and the end of its request if it schedules one.
  \<open>post\<close> stands for \<open>axios.post\<close> to \<open>/convert\<close>; the number counts the
  requests sent.
\<close>

definition reconcile ::
    "(string \<Rightarrow> segment list) \<Rightarrow> (string \<Rightarrow> reply) \<Rightarrow> app \<Rightarrow> string \<Rightarrow> app \<times> nat" where
  "reconcile extractor post st input =
     (case conversionEffect extractor st input of
        (st1, None) \<Rightarrow> (st1, 0)
      | (st1, Some mathSnapshot) \<Rightarrow> (onReply st1 mathSnapshot (post input), 1))"

text \<open>The backend behind \<open>axios.post\<close>: a status other than 200 rejects the promise.\<close>

definition backend :: "bool \<Rightarrow> service \<Rightarrow> string \<Rightarrow> reply" where
  "backend hasOpenAIKey service input =
     (let response = convert_route hasOpenAIKey service
                       (Some (JObject [(''input'', JString input)]))
      in if httpStatus response = 200
         then Resolved (case json response of SegmentsJson s \<Rightarrow> Some s | ErrorJson m \<Rightarrow> None)
         else Rejected (case json response of ErrorJson m \<Rightarrow> Some m | SegmentsJson s \<Rightarrow> None))"

section \<open>Properties of the editor's reconciliation\<close>

text \<open>Both extractors deliver segments of type \<open>'math'\<close> or \<open>'text'\<close> only.\<close>

definition mathOrText :: "segment \<Rightarrow> bool" where
  "mathOrText segment = (type segment = Math \<or> type segment = Text)"

lemma mathOrText_simps:
  "mathOrText \<lparr>type = Text, content = c\<rparr>" "mathOrText \<lparr>type = Math, content = c\<rparr>"
  by (simp_all add: mathOrText_def)

lemma App_extract_loop_types:
  "list_all mathOrText acc \<Longrightarrow>
     list_all mathOrText (snd (App_extract_loop doc lastIndex acc))"
proof (induction doc lastIndex acc rule: App_extract_loop.induct)
  case (1 doc lastIndex acc)
  show ?case
  proof (cases "regex_exec doc lastIndex")
    case None
    then show ?thesis using "1.prems" by (subst App_extract_loop.simps) simp
  next
    case (Some m)
    obtain index inside lastIndex' where m: "m = (index, inside, lastIndex')"
      by (cases m) auto
    define acc1 where "acc1 =
        (if index > lastIndex
         then (let outside = slice doc lastIndex index
               in if trim outside \<noteq> []
                  then acc @ [\<lparr>type = Text, content = outside\<rparr>]
                  else acc)
         else acc)"
    define acc2 where "acc2 =
        (if trim inside \<noteq> []
         then acc1 @ [\<lparr>type = Math, content = inside\<rparr>]
         else acc1)"
    have w1: "list_all mathOrText acc1"
      using "1.prems" by (simp add: acc1_def Let_def mathOrText_simps)
    have w2: "list_all mathOrText acc2"
      using w1 by (simp add: acc2_def mathOrText_simps)
    have "list_all mathOrText (snd (App_extract_loop doc lastIndex' acc2))"
      using "1.IH" [OF Some m [symmetric] refl refl refl] w2
      unfolding acc1_def acc2_def by blast
    moreover have "App_extract_loop doc lastIndex acc = App_extract_loop doc lastIndex' acc2"
      by (subst App_extract_loop.simps) (simp add: Some m acc1_def acc2_def Let_def)
    ultimately show ?thesis by simp
  qed
qed

lemma App_extractSegments_types: "list_all mathOrText (App_extractSegments doc)"
proof -
  obtain k acc where loop: "App_extract_loop doc 0 [] = (k, acc)"
    by (cases "App_extract_loop doc 0 []") auto
  have "list_all mathOrText acc"
    using App_extract_loop_types [of "[]" doc 0] by (simp add: loop)
  then show ?thesis
    by (simp add: App_extractSegments_def loop Let_def mathOrText_simps)
qed

lemma extractSegments_types: "list_all mathOrText (extractSegments input)"
  using extractSegments_wellFormed [of input]
  by (simp add: list_all_iff wellFormed_def mathOrText_def)

text \<open>A segment rendered from the cache alone.\<close>

definition fromCache :: "cache \<Rightarrow> segment \<Rightarrow> segment" where
  "fromCache cache segment =
     (if type segment = Math
      then \<lparr>type = Latex, content = the (cache (content segment))\<rparr>
      else \<lparr>type = Text, content = content segment\<rparr>)"

lemma hydrateSegment_cached:
  assumes "type segment = Math \<or> type segment = Text"
    and "type segment = Math \<longrightarrow>
           (\<exists>cached. cache (content segment) = Some cached \<and> cached \<noteq> [])"
  shows "hydrateSegment cache segment = (fromCache cache segment, False)"
  using assms by (auto simp: hydrateSegment_def fromCache_def)

lemma cached_needs_no_request:
  assumes "\<forall>segment \<in> set (extractor input). type segment = Math \<or> type segment = Text"
    and "\<forall>segment \<in> set (extractor input).
           type segment = Math \<longrightarrow>
             (\<exists>cached. latexCache st (content segment) = Some cached \<and> cached \<noteq> [])"
  shows "reconcile extractor post st input
       = (st\<lparr>segments := (if trim input = [] then []
                           else map (fromCache (latexCache st)) (extractor input)),
              status := Idle, errorMessage := None\<rparr>, 0)"
proof (cases "trim input = []")
  case True
  then show ?thesis by (simp add: reconcile_def conversionEffect_def)
next
  case False
  have h: "\<forall>segment \<in> set (extractor input).
      hydrateSegment (latexCache st) segment = (fromCache (latexCache st) segment, False)"
    using assms by (auto intro!: hydrateSegment_cached)
  have hyd: "map (\<lambda>segment. fst (hydrateSegment (latexCache st) segment)) (extractor input)
      = map (fromCache (latexCache st)) (extractor input)"
    using h by (auto intro!: map_cong)
  have needs: "\<not> list_ex (\<lambda>segment. snd (hydrateSegment (latexCache st) segment))
      (extractor input)"
    using h by (auto simp: list_ex_iff)
  show ?thesis
  proof (cases "list_ex (\<lambda>segment. type segment = Math) (extractor input)")
    case True
    then show ?thesis
      using False needs
      by (simp add: reconcile_def conversionEffect_def Let_def hyd)
  next
    case nomath: False
    have "map (\<lambda>segment. \<lparr>type = Text, content = content segment\<rparr>) (extractor input)
        = map (fromCache (latexCache st)) (extractor input)"
      using nomath by (auto simp: list_ex_iff fromCache_def intro!: map_cong)
    then show ?thesis
      using False nomath
      by (simp add: reconcile_def conversionEffect_def Let_def)
  qed
qed

text \<open>
  Claim C6, as amended. When every instruction of the document has a non-empty string
  in the cache, the reconciliation sends no request, whatever the backend would
  answer, and leaves the cache as it is; the segments it renders are built from the
  extracted segments and the cache alone: each text segment with its extracted content,
  each instruction as a formula holding its cached string, in the order of the
  document. (They are what the effect renders every time it meets this document with
  this cache; they need not be the segments a reply of the backend delivered.)
\<close>

theorem cached_document_needs_no_request:
  assumes "extractor = App_extractSegments \<or> extractor = extractSegments"
    and "\<forall>segment \<in> set (extractor input).
           type segment = Math \<longrightarrow>
             (\<exists>cached. latexCache st (content segment) = Some cached \<and> cached \<noteq> [])"
  shows "reconcile extractor post st input
       = (st\<lparr>segments := (if trim input = [] then []
                           else map (fromCache (latexCache st)) (extractor input)),
              status := Idle, errorMessage := None\<rparr>, 0)"
proof -
  have "list_all mathOrText (extractor input)"
    using assms(1) App_extractSegments_types extractSegments_types by auto
  then have "\<forall>segment \<in> set (extractor input). type segment = Math \<or> type segment = Text"
    by (simp add: list_all_iff mathOrText_def)
  then show ?thesis
    using assms(2) by (rule cached_needs_no_request)
qed

lemma storeLatex_step_dom:
  "dom cache \<subseteq> dom
     (fold (\<lambda>(segment, index) cache.
             case at mathSnapshot index of
               None \<Rightarrow> cache
             | Some original \<Rightarrow>
                 if original \<noteq> [] then cache(original \<mapsto> content segment) else cache)
        pairs cache)"
proof (induction pairs arbitrary: cache)
  case Nil
  then show ?case by simp
next
  case (Cons p pairs)
  obtain segment index where p: "p = (segment, index)" by (cases p) auto
  let ?cache1 = "case at mathSnapshot index of
               None \<Rightarrow> cache
             | Some original \<Rightarrow>
                 if original \<noteq> [] then cache(original \<mapsto> content segment) else cache"
  have "dom cache \<subseteq> dom ?cache1"
    by (auto split: option.splits)
  also have "dom ?cache1 \<subseteq> dom
     (fold (\<lambda>(segment, index) cache.
             case at mathSnapshot index of
               None \<Rightarrow> cache
             | Some original \<Rightarrow>
                 if original \<noteq> [] then cache(original \<mapsto> content segment) else cache)
        pairs ?cache1)"
    by (rule Cons.IH)
  finally show ?case by (simp add: p)
qed

lemma storeLatex_step_other:
  assumes "\<forall>(segment, index) \<in> set pairs. at mathSnapshot index \<noteq> Some key"
  shows "fold (\<lambda>(segment, index) cache.
             case at mathSnapshot index of
               None \<Rightarrow> cache
             | Some original \<Rightarrow>
                 if original \<noteq> [] then cache(original \<mapsto> content segment) else cache)
        pairs cache key = cache key"
  using assms
proof (induction pairs arbitrary: cache)
  case Nil
  then show ?case by simp
next
  case (Cons p pairs)
  obtain segment index where p: "p = (segment, index)" by (cases p) auto
  have here: "at mathSnapshot index \<noteq> Some key" using Cons.prems p by auto
  have rest: "\<forall>(segment, index) \<in> set pairs. at mathSnapshot index \<noteq> Some key"
    using Cons.prems by auto
  note ih = Cons.IH [OF rest]
  show ?case
    using here by (auto simp: p ih split: option.splits)
qed

lemma storeLatex_dom: "dom cache \<subseteq> dom (storeLatex mathSnapshot latexSegments cache)"
  unfolding storeLatex_def by (rule storeLatex_step_dom)

lemma storeLatex_other:
  assumes "key \<notin> set mathSnapshot"
  shows "storeLatex mathSnapshot latexSegments cache key = cache key"
  unfolding storeLatex_def
proof (rule storeLatex_step_other)
  show "\<forall>(segment, index) \<in> set (zip latexSegments [0 ..< length latexSegments]).
      at mathSnapshot index \<noteq> Some key"
    using assms by (auto simp: at_def)
qed

lemma conversionEffect_cache:
  "latexCache (fst (conversionEffect extractor st input)) = latexCache st"
  by (simp add: conversionEffect_def Let_def)

lemma conversionEffect_snapshot:
  "snd (conversionEffect extractor st input) = Some mathSnapshot \<Longrightarrow>
     mathSnapshot = map content (filter (\<lambda>segment. type segment = Math) (extractor input))"
  by (auto simp: conversionEffect_def Let_def split: if_splits)

text \<open>
  Claim C7, as amended. Over a reconciliation the keys of the cache only grow: every
  key present before is present afterwards. The string stored under a key can change
  only for the instructions of the document at hand (a resolved reply stores its
  formulas anew under them); every other entry keeps its string. When the request is
  not resolved (it is rejected or ignored) the cache is left exactly as it was.
\<close>

theorem cache_keys_only_grow:
  "dom (latexCache st) \<subseteq> dom (latexCache (fst (reconcile extractor post st input)))
   \<and> (\<forall>key. key \<notin> set (map content (filter (\<lambda>segment. type segment = Math) (extractor input)))
         \<longrightarrow> latexCache (fst (reconcile extractor post st input)) key = latexCache st key)
   \<and> ((\<forall>data. post input \<noteq> Resolved data)
         \<longrightarrow> latexCache (fst (reconcile extractor post st input)) = latexCache st)"
proof -
  obtain st1 request where eff: "conversionEffect extractor st input = (st1, request)"
    by (cases "conversionEffect extractor st input") auto
  have c1: "latexCache st1 = latexCache st"
    using conversionEffect_cache [of extractor st input] by (simp add: eff)
  show ?thesis
  proof (cases request)
    case None
    then show ?thesis by (simp add: reconcile_def eff c1)
  next
    case (Some mathSnapshot)
    have snap: "mathSnapshot
        = map content (filter (\<lambda>segment. type segment = Math) (extractor input))"
      using conversionEffect_snapshot [of extractor st input mathSnapshot]
      by (simp add: eff Some)
    have r: "fst (reconcile extractor post st input) = onReply st1 mathSnapshot (post input)"
      by (simp add: reconcile_def eff Some)
    show ?thesis
    proof (cases "post input")
      case (Resolved data)
      then show ?thesis
        using storeLatex_dom storeLatex_other
        by (simp add: r onReply_def Let_def c1 snap [symmetric])
    next
      case (Rejected message)
      then show ?thesis by (simp add: r onReply_def c1)
    next
      case Ignored
      then show ?thesis by (simp add: r onReply_def c1)
    qed
  qed
qed

section \<open>Backfilling a short reply of the external service\<close>

text \<open>
  Claim C1, as amended. When the external service answers with a list that is not
  empty and has fewer entries than instructions were requested, the list is repaired to
  the full length: every position at or beyond the length of the answer holds the
  fallback conversion of the instruction at that position. The merge then reads, for
  every such instruction, exactly that entry, and emits a formula for it (the
  normalized fallback conversion, which is not empty), so none of these instructions is
  left out of the result.
\<close>

theorem short_reply_is_backfilled:
  assumes "service (map content (filter (\<lambda>segment. type segment = Math) (extractSegments input)))
           = Some parsed"
    and "parsed \<noteq> []"
    and "length parsed
           < length (filter (\<lambda>segment. type segment = Math) (extractSegments input))"
  shows "convertMathToLatex True service input
           = Inr (filterBoolean (orderSegments
                   (backfill (filter (\<lambda>segment. type segment = Math) (extractSegments input))
                      (map latexOfItem parsed))
                   0 (extractSegments input)))
    \<and> length (backfill (filter (\<lambda>segment. type segment = Math) (extractSegments input))
                 (map latexOfItem parsed))
        = length (filter (\<lambda>segment. type segment = Math) (extractSegments input))
    \<and> (\<forall>i. length parsed \<le> i
           \<and> i < length (filter (\<lambda>segment. type segment = Math) (extractSegments input))
         \<longrightarrow> backfill (filter (\<lambda>segment. type segment = Math) (extractSegments input))
               (map latexOfItem parsed) ! i
             = basicInlineConverter
                 (content (filter (\<lambda>segment. type segment = Math) (extractSegments input) ! i)))
    \<and> (\<forall>j. j < length (extractSegments input)
           \<and> type (extractSegments input ! j) = Math
           \<and> length parsed
                \<le> length (filter (\<lambda>segment. type segment = Math)
                            (take j (extractSegments input)))
         \<longrightarrow> orderSegments
               (backfill (filter (\<lambda>segment. type segment = Math) (extractSegments input))
                  (map latexOfItem parsed))
               0 (extractSegments input) ! j
             = Some \<lparr>type = Latex,
                     content = normalizeLatex
                       (basicInlineConverter (content (extractSegments input ! j)))\<rparr>)"
proof -
  have ne: "map content (filter (\<lambda>segment. type segment = Math) (extractSegments input)) \<noteq> []"
    using assms(3) by auto
  have r: "convertWithOpenAI service
             (map content (filter (\<lambda>segment. type segment = Math) (extractSegments input)))
           = Inr (map latexOfItem parsed)"
    using assms(1,2) ne by (simp add: convertWithOpenAI_def)
  have l: "length (map latexOfItem parsed)
           < length (filter (\<lambda>segment. type segment = Math) (extractSegments input))"
    using assms(3) by simp
  from backfill_after_short_list [OF r l] show ?thesis by simp
qed

theorem short_reply_is_backfilled_witness:
  "(\<lambda>instructions. Some [JString ''x''])
       (map content (filter (\<lambda>segment. type segment = Math)
          (extractSegments ''*a* and *fraction(1,2)*'')))
     = Some [JString ''x'']
   \<and> [JString ''x''] \<noteq> []
   \<and> length [JString ''x'']
       < length (filter (\<lambda>segment. type segment = Math)
           (extractSegments ''*a* and *fraction(1,2)*''))
   \<and> convertMathToLatex True (\<lambda>instructions. Some [JString ''x''])
         ''*a* and *fraction(1,2)*''
       = Inr [\<lparr>type = Latex, content = ''x''\<rparr>, \<lparr>type = Text, content = ''and''\<rparr>,
              \<lparr>type = Latex, content = [backslash, backslash] @ ''frac{1}{2}''\<rparr>]"
proof -
  have e: "extractSegments ''*a* and *fraction(1,2)*''
      = [\<lparr>type = Math, content = ''a''\<rparr>, \<lparr>type = Text, content = ''and''\<rparr>,
         \<lparr>type = Math, content = ''fraction(1,2)''\<rparr>]"
    by code_simp
  have h1: "(\<lambda>instructions. Some [JString ''x''])
       (map content (filter (\<lambda>segment. type segment = Math)
          (extractSegments ''*a* and *fraction(1,2)*'')))
     = Some [JString ''x'']"
    by simp
  have h2: "[JString ''x''] \<noteq> []"
    by simp
  have h3: "length [JString ''x'']
       < length (filter (\<lambda>segment. type segment = Math)
           (extractSegments ''*a* and *fraction(1,2)*''))"
    unfolding e by simp
  have o: "filterBoolean (orderSegments
             (backfill (filter (\<lambda>segment. type segment = Math)
                 (extractSegments ''*a* and *fraction(1,2)*''))
                (map latexOfItem [JString ''x'']))
             0 (extractSegments ''*a* and *fraction(1,2)*''))
      = [\<lparr>type = Latex, content = ''x''\<rparr>, \<lparr>type = Text, content = ''and''\<rparr>,
         \<lparr>type = Latex, content = [backslash, backslash] @ ''frac{1}{2}''\<rparr>]"
    unfolding e by code_simp
  from short_reply_is_backfilled [OF h1 h2 h3]
  have "convertMathToLatex True (\<lambda>instructions. Some [JString ''x''])
         ''*a* and *fraction(1,2)*''
      = Inr (filterBoolean (orderSegments
             (backfill (filter (\<lambda>segment. type segment = Math)
                 (extractSegments ''*a* and *fraction(1,2)*''))
                (map latexOfItem [JString ''x'']))
             0 (extractSegments ''*a* and *fraction(1,2)*'')))"
    by blast
  then show ?thesis
    using h2 h3 unfolding o by simp
qed

text \<open>
  Claim C1, as the specification words it, fails for the shortest answer: on an empty
  list \<open>convertWithOpenAI\<close> throws, nothing is handed to the fallback converter and
  the whole conversion is rejected.
\<close>

theorem empty_reply_is_rejected:
  "convertMathToLatex True (\<lambda>instructions. Some []) ''*squareroot(2x)* is steep''
     = Inl EmptyResponse"
  by code_simp

section \<open>Instances of the reconciliation\<close>

theorem cached_document_needs_no_request_witness:
  "snd (reconcile App_extractSegments (backend False (\<lambda>instructions. None))
          (initialApp\<lparr>latexCache := [''squareroot(2x)'' \<mapsto> ''y'']\<rparr>)
          ''*squareroot(2x)* is steep'') = 0
   \<and> segments (fst (reconcile App_extractSegments (backend False (\<lambda>instructions. None))
          (initialApp\<lparr>latexCache := [''squareroot(2x)'' \<mapsto> ''y'']\<rparr>)
          ''*squareroot(2x)* is steep''))
       = [\<lparr>type = Latex, content = ''y''\<rparr>, \<lparr>type = Text, content = '' is steep''\<rparr>]"
proof -
  have e: "App_extractSegments ''*squareroot(2x)* is steep''
      = [\<lparr>type = Math, content = ''squareroot(2x)''\<rparr>,
         \<lparr>type = Text, content = '' is steep''\<rparr>]"
    by code_simp
  have t: "trim ''*squareroot(2x)* is steep'' \<noteq> []"
    by (simp add: trim_def isSpace_def)
  have h1: "App_extractSegments = App_extractSegments \<or> App_extractSegments = extractSegments"
    by simp
  have h2: "\<forall>segment \<in> set (App_extractSegments ''*squareroot(2x)* is steep'').
      type segment = Math \<longrightarrow>
        (\<exists>cached. latexCache (initialApp\<lparr>latexCache := [''squareroot(2x)'' \<mapsto> ''y'']\<rparr>)
                     (content segment) = Some cached \<and> cached \<noteq> [])"
    by (simp add: e)
  from cached_document_needs_no_request
         [where extractor = App_extractSegments and input = "''*squareroot(2x)* is steep''"
            and st = "initialApp\<lparr>latexCache := [''squareroot(2x)'' \<mapsto> ''y'']\<rparr>"
            and post = "backend False (\<lambda>instructions. None)", OF h1 h2]
  show ?thesis
    using t by (simp add: e fromCache_def)
qed

text \<open>
  Claim C6, as the specification words it, fails on \<open>*squareroot(2x)* is steep\<close>
  with a backend that has no external service. The first reconciliation sends one
  request and renders the reply, whose text segment the backend has trimmed. The second
  one finds the instruction in the cache, sends nothing, and renders the text segment
  as the editor's own extractor delivers it, with its leading blank.
\<close>

theorem cached_rendering_differs_from_reply:
  "reconcile App_extractSegments (backend False (\<lambda>instructions. None)) initialApp
       ''*squareroot(2x)* is steep''
     = (\<lparr>segments = [\<lparr>type = Latex, content = [backslash, backslash] @ ''sqrt{2x}''\<rparr>,
                      \<lparr>type = Text, content = ''is steep''\<rparr>],
         status = Idle, errorMessage = None,
         latexCache = [''squareroot(2x)'' \<mapsto> [backslash, backslash] @ ''sqrt{2x}'']\<rparr>, 1)
   \<and> reconcile App_extractSegments (backend False (\<lambda>instructions. None))
       \<lparr>segments = [\<lparr>type = Latex, content = [backslash, backslash] @ ''sqrt{2x}''\<rparr>,
                     \<lparr>type = Text, content = ''is steep''\<rparr>],
        status = Idle, errorMessage = None,
        latexCache = [''squareroot(2x)'' \<mapsto> [backslash, backslash] @ ''sqrt{2x}'']\<rparr>
       ''*squareroot(2x)* is steep''
     = (\<lparr>segments = [\<lparr>type = Latex, content = [backslash, backslash] @ ''sqrt{2x}''\<rparr>,
                      \<lparr>type = Text, content = '' is steep''\<rparr>],
         status = Idle, errorMessage = None,
         latexCache = [''squareroot(2x)'' \<mapsto> [backslash, backslash] @ ''sqrt{2x}'']\<rparr>, 0)"
proof -
  have e: "App_extractSegments ''*squareroot(2x)* is steep''
      = [\<lparr>type = Math, content = ''squareroot(2x)''\<rparr>,
         \<lparr>type = Text, content = '' is steep''\<rparr>]"
    by code_simp
  have t: "trim ''*squareroot(2x)* is steep'' \<noteq> []"
    by (simp add: trim_def isSpace_def)
  have b: "backend False (\<lambda>instructions. None) ''*squareroot(2x)* is steep''
      = Resolved (Some [\<lparr>type = Latex, content = [backslash, backslash] @ ''sqrt{2x}''\<rparr>,
                        \<lparr>type = Text, content = ''is steep''\<rparr>])"
    by code_simp
  show ?thesis
    using t
    by (simp add: reconcile_def conversionEffect_def e b hydrateSegment_def onReply_def
        storeLatex_def at_def initialApp_def Let_def)
qed


text \<open>
  With the extractor of the earlier version of the editor, which trims as the backend
  does, the renderings differ as well when the external service converts a repeated
  instruction in two ways: the cache keeps one string per instruction text.
\<close>

theorem repeated_instruction_rendering_differs:
  "reconcile extractSegments
       (backend True (\<lambda>instructions. Some [JString ''a'', JString ''b''])) initialApp
       ''*x* *x*''
     = (\<lparr>segments = [\<lparr>type = Latex, content = ''a''\<rparr>, \<lparr>type = Latex, content = ''b''\<rparr>],
         status = Idle, errorMessage = None, latexCache = [''x'' \<mapsto> ''b'']\<rparr>, 1)
   \<and> reconcile extractSegments
       (backend True (\<lambda>instructions. Some [JString ''a'', JString ''b'']))
       \<lparr>segments = [\<lparr>type = Latex, content = ''a''\<rparr>, \<lparr>type = Latex, content = ''b''\<rparr>],
        status = Idle, errorMessage = None, latexCache = [''x'' \<mapsto> ''b'']\<rparr>
       ''*x* *x*''
     = (\<lparr>segments = [\<lparr>type = Latex, content = ''b''\<rparr>, \<lparr>type = Latex, content = ''b''\<rparr>],
         status = Idle, errorMessage = None, latexCache = [''x'' \<mapsto> ''b'']\<rparr>, 0)"
proof -
  have e: "extractSegments ''*x* *x*''
      = [\<lparr>type = Math, content = ''x''\<rparr>, \<lparr>type = Math, content = ''x''\<rparr>]"
    by code_simp
  have t: "trim ''*x* *x*'' \<noteq> []"
    by (simp add: trim_def isSpace_def)
  have b: "backend True (\<lambda>instructions. Some [JString ''a'', JString ''b'']) ''*x* *x*''
      = Resolved (Some [\<lparr>type = Latex, content = ''a''\<rparr>, \<lparr>type = Latex, content = ''b''\<rparr>])"
    by code_simp
  show ?thesis
    using t
    by (simp add: reconcile_def conversionEffect_def e b hydrateSegment_def onReply_def
        storeLatex_def at_def initialApp_def Let_def)
qed

text \<open>
  Claim C7, as the specification words it, fails when the external service converts an
  instruction that is already cached in another way: the entry \<open>a \<mapsto> x\<close> of the
  first reconciliation is replaced by \<open>a \<mapsto> y\<close> in the second.
\<close>

theorem cached_entry_is_overwritten:
  "latexCache (fst (reconcile App_extractSegments
       (backend True (\<lambda>instructions. if instructions = [''a''] then Some [JString ''x'']
                                     else Some [JString ''y'', JString ''z'']))
       initialApp ''*a*'')) ''a'' = Some ''x''
   \<and> latexCache (fst (reconcile App_extractSegments
       (backend True (\<lambda>instructions. if instructions = [''a''] then Some [JString ''x'']
                                     else Some [JString ''y'', JString ''z'']))
       (fst (reconcile App_extractSegments
          (backend True (\<lambda>instructions. if instructions = [''a''] then Some [JString ''x'']
                                        else Some [JString ''y'', JString ''z'']))
          initialApp ''*a*''))
       ''*a* *b*'')) ''a'' = Some ''y''"
  by code_simp

theorem cache_keys_only_grow_witness:
  "(\<forall>data. backend True (\<lambda>instructions. None) ''*b*'' \<noteq> Resolved data)
   \<and> ''a'' \<notin> set (map content (filter (\<lambda>segment. type segment = Math)
                      (App_extractSegments ''*b*'')))
   \<and> latexCache (fst (reconcile App_extractSegments (backend True (\<lambda>instructions. None))
         (initialApp\<lparr>latexCache := [''a'' \<mapsto> ''x'']\<rparr>) ''*b*''))
       = [''a'' \<mapsto> ''x'']
   \<and> latexCache (fst (reconcile App_extractSegments (backend True (\<lambda>instructions. None))
         (initialApp\<lparr>latexCache := [''a'' \<mapsto> ''x'']\<rparr>) ''*b*'')) ''a''
       = Some ''x''"
proof -
  have e: "App_extractSegments ''*b*'' = [\<lparr>type = Math, content = ''b''\<rparr>]"
    by code_simp
  have b: "backend True (\<lambda>instructions. None) ''*b*'' = Rejected (Some conversionFailedMessage)"
    by code_simp
  have h3: "\<forall>data. backend True (\<lambda>instructions. None) ''*b*'' \<noteq> Resolved data"
    by (simp add: b)
  have h2: "''a'' \<notin> set (map content (filter (\<lambda>segment. type segment = Math)
                      (App_extractSegments ''*b*'')))"
    by (simp add: e)
  from cache_keys_only_grow
         [where extractor = App_extractSegments and input = "''*b*''"
            and st = "initialApp\<lparr>latexCache := [''a'' \<mapsto> ''x'']\<rparr>"
            and post = "backend True (\<lambda>instructions. None)"]
  show ?thesis
    using h2 h3 by simp
qed

end
